theory Spec2Isabelle
  imports Main "HOL-Library.Sublist"
begin

section \<open>Strings\<close>

text \<open>
  Python strings are sequences of code points; the model uses \<^typ>\<open>string\<close>, a list of
  \<^typ>\<open>char\<close>, each standing for one code point below 256. Every character the program
  tests for (separators, the reference markup, hexadecimal digits, the dot before an
  extension) is ASCII.
\<close>

subsection \<open>\<^verbatim>\<open>sanitize_filename\<close>\<close>

text \<open>
  \<^verbatim>\<open>re.sub(r'[\\/:"*?<>|]+', "_", name)\<close>: the character class of the pattern, then the
  substitution. The scan goes left to right; where a character of the class stands, the
  greedy \<^verbatim>\<open>+\<close> takes the whole run of such characters and one underscore is written
  for the run.
\<close>

definition illegal_chars :: "char set" where
  "illegal_chars =
     {CHR 0x5C, CHR ''/'', CHR '':'', CHR 0x22, CHR ''*'', CHR ''?'', CHR ''<'', CHR ''>'', CHR ''|''}"

definition illegal_char :: "char \<Rightarrow> bool" where
  "illegal_char c = (c \<in> illegal_chars)"

function sanitize_filename :: "string \<Rightarrow> string" where
  "sanitize_filename [] = []"
| "sanitize_filename (c # cs) =
     (if illegal_char c then CHR ''_'' # sanitize_filename (dropWhile illegal_char cs)
      else c # sanitize_filename cs)"
  by pat_completeness auto
termination
  by (relation "measure length") (auto simp: length_dropWhile_le less_Suc_eq_le)

subsection \<open>\<^verbatim>\<open>str.strip\<close>, \<^verbatim>\<open>str.lower\<close>, \<^verbatim>\<open>str.split(".")[-1]\<close>, \<^verbatim>\<open>str.replace\<close>\<close>

text \<open>The code points below 256 for which Python's \<^verbatim>\<open>str.isspace\<close> holds.\<close>

definition is_space :: "char \<Rightarrow> bool" where
  "is_space c =
     (let n = (of_char c :: nat)
      in (9 \<le> n \<and> n \<le> 13) \<or> (28 \<le> n \<and> n \<le> 32) \<or> n = 133 \<or> n = 160)"

definition py_strip :: "string \<Rightarrow> string" where
  "py_strip s = rev (dropWhile is_space (rev (dropWhile is_space s)))"

text \<open>\<^verbatim>\<open>str.lower\<close> on code points below 256: A-Z, and the Latin-1 capitals but the
  multiplication sign.\<close>

definition char_lower :: "char \<Rightarrow> char" where
  "char_lower c =
     (let n = (of_char c :: nat)
      in if (65 \<le> n \<and> n \<le> 90) \<or> (192 \<le> n \<and> n \<le> 222 \<and> n \<noteq> 215)
         then char_of (n + 32) else c)"

definition py_lower :: "string \<Rightarrow> string" where
  "py_lower s = map char_lower s"

text \<open>\<^verbatim>\<open>s.split(".")[-1]\<close>: what follows the last dot, the whole string when it has none.\<close>

definition last_dot_segment :: "string \<Rightarrow> string" where
  "last_dot_segment s = rev (takeWhile (\<lambda>c. c \<noteq> CHR ''.'') (rev s))"

text \<open>
  \<^verbatim>\<open>s.replace(old, new)\<close>: left to right, occurrences that do not overlap. With an
  empty \<^verbatim>\<open>old\<close> Python writes \<^verbatim>\<open>new\<close> before every character and at the end.
\<close>

function str_replace :: "string \<Rightarrow> string \<Rightarrow> string \<Rightarrow> string" where
  "str_replace old new [] = (if old = [] then new else [])"
| "str_replace old new (c # cs) =
     (if old = [] then new @ c # str_replace old new cs
      else if take (length old) (c # cs) = old
      then new @ str_replace old new (drop (length old) (c # cs))
      else c # str_replace old new cs)"
  by pat_completeness auto
termination
  by (relation "measure (\<lambda>(old, new, s). length s)") (auto simp: neq_Nil_conv)

subsection \<open>The title of a note\<close>

text \<open>
  \<^verbatim>\<open>title = (title or "Untitled").strip()\<close> and
  \<^verbatim>\<open>safe_title = sanitize_filename(title)[:100]\<close>. A title read from the database is
  a string or \<^verbatim>\<open>None\<close>; \<^verbatim>\<open>or\<close> takes the default for \<^verbatim>\<open>None\<close> and for the empty string.
\<close>

definition title_or_untitled :: "string option \<Rightarrow> string" where
  "title_or_untitled title =
     (case title of None \<Rightarrow> ''Untitled'' | Some t \<Rightarrow> if t = [] then ''Untitled'' else t)"

definition safe_title_of :: "string option \<Rightarrow> string" where
  "safe_title_of title = take 100 (sanitize_filename (py_strip (title_or_untitled title)))"

definition note_filename :: "string option \<Rightarrow> string" where
  "note_filename title = safe_title_of title @ ''.md''"

section \<open>Properties of sanitization\<close>

lemma sanitize_filename_legal:
  "\<forall>c \<in> set s. \<not> illegal_char c \<Longrightarrow> sanitize_filename s = s"
  by (induction s) auto

lemma underscore_legal: "\<not> illegal_char (CHR ''_'')"
  by (simp add: illegal_char_def illegal_chars_def)

lemma sanitize_filename_no_illegal: "c \<in> set (sanitize_filename s) \<Longrightarrow> \<not> illegal_char c"
proof (induction s rule: sanitize_filename.induct)
  case 1
  then show ?case by simp
next
  case (2 x xs)
  show ?case
  proof (cases "illegal_char x")
    case True
    with 2 show ?thesis by (auto simp: underscore_legal)
  next
    case False
    with 2 show ?thesis by auto
  qed
qed

text \<open>
  Claim C3. For every input string the sanitized result holds none of the characters
  \<^verbatim>\<open>\ / : " * ? < > |\<close>, and sanitizing a sanitized string changes nothing.
\<close>

theorem sanitize_filename_clean_idempotent:
  "set (sanitize_filename s) \<inter> illegal_chars = {} \<and>
   sanitize_filename (sanitize_filename s) = sanitize_filename s"
proof
  show "set (sanitize_filename s) \<inter> illegal_chars = {}"
    using sanitize_filename_no_illegal [of _ s] by (auto simp: illegal_char_def)
  show "sanitize_filename (sanitize_filename s) = sanitize_filename s"
    by (rule sanitize_filename_legal) (auto dest: sanitize_filename_no_illegal)
qed

text \<open>
  Claim C2 as stated: every illegal character becomes an underscore and every legal
  character stays at its place, that is, the result is the input with each character
  mapped on its own. It fails where two illegal characters are adjacent: the pattern ends
  in \<^verbatim>\<open>+\<close>, so \<^verbatim>\<open>a::b\<close> becomes \<^verbatim>\<open>a_b\<close> and not \<^verbatim>\<open>a__b\<close>.
\<close>

theorem sanitize_filename_per_char_counterexample:
  "sanitize_filename ''a::b'' \<noteq> map (\<lambda>c. if illegal_char c then CHR ''_'' else c) ''a::b''"
  by (simp add: illegal_char_def illegal_chars_def)

lemma sanitize_filename_example: "sanitize_filename ''a::b'' = ''a_b''"
  by (simp add: illegal_char_def illegal_chars_def)

lemma sanitize_filename_runs_aux:
  "map (\<lambda>c. if illegal_char c then CHR ''_'' else c)
     (map snd (filter (\<lambda>(prev_illegal, c). \<not> (prev_illegal \<and> illegal_char c))
        (zip (b # map illegal_char s) s)))
   = (if b then sanitize_filename (dropWhile illegal_char s) else sanitize_filename s)"
  by (induction s arbitrary: b) auto

text \<open>
  Claim C2, amended. Every maximal run of illegal characters becomes one underscore and
  the other characters are kept, in order: the result is the input without the illegal
  characters that directly follow an illegal character, each remaining character mapped
  on its own (illegal to underscore, legal to itself). \<open>zip (False # map illegal_char s) s\<close>
  pairs each character with whether its predecessor is illegal.
\<close>

theorem sanitize_filename_runs:
  "sanitize_filename s =
     map (\<lambda>c. if illegal_char c then CHR ''_'' else c)
       (map snd (filter (\<lambda>(prev_illegal, c). \<not> (prev_illegal \<and> illegal_char c))
          (zip (False # map illegal_char s) s)))"
  using sanitize_filename_runs_aux [of False s] by simp

text \<open>
  Where no two illegal characters are adjacent, every character is mapped on its own, as
  the claim says.
\<close>

lemma sanitize_filename_no_adjacent:
  "\<forall>i. Suc i < length s \<longrightarrow> \<not> (illegal_char (s ! i) \<and> illegal_char (s ! Suc i)) \<Longrightarrow>
   sanitize_filename s = map (\<lambda>c. if illegal_char c then CHR ''_'' else c) s"
proof (induction s rule: sanitize_filename.induct)
  case 1
  then show ?case by simp
next
  case (2 c cs)
  have tl: "\<forall>i. Suc i < length cs \<longrightarrow> \<not> (illegal_char (cs ! i) \<and> illegal_char (cs ! Suc i))"
    using 2(3) by (metis Suc_less_eq length_Cons nth_Cons_Suc)
  show ?case
  proof (cases "illegal_char c")
    case True
    have "cs = [] \<or> \<not> illegal_char (hd cs)"
      using 2(3) [rule_format, of 0] True by (cases cs) auto
    then have "dropWhile illegal_char cs = cs" by (cases cs) auto
    with 2(1) [OF True] tl True show ?thesis by simp
  next
    case False
    with 2(2) [OF False] tl show ?thesis by simp
  qed
qed

section \<open>Properties of the title\<close>


section \<open>Resource references in a note body\<close>

text \<open>
  A reference to a resource is written \<^verbatim>\<open>![](:/<id>)\<close> with 32 characters of
  \<^verbatim>\<open>[a-f0-9]\<close> for the identifier; the source scans for it with the regular expression
  \<^verbatim>\<open>!\[\]\(:/([a-f0-9]{32})\)\<close> (lines 88 and 140). The expression is a sequence of 39
  single-character tests: it matches at a position when the next 39 characters pass
  them, and its group 1 is characters 6 to 37 of the match.
\<close>

definition hex_char :: "char \<Rightarrow> bool" where
  "hex_char c = (c \<in> set ''abcdef0123456789'')"

definition ref_pattern :: "(char \<Rightarrow> bool) list" where
  "ref_pattern =
     map (\<lambda>p c. c = p) ''![](:/'' @ replicate 32 hex_char @ [\<lambda>c. c = CHR '')'']"

fun match_prefix :: "(char \<Rightarrow> bool) list \<Rightarrow> string \<Rightarrow> bool" where
  "match_prefix [] s = True"
| "match_prefix (p # ps) [] = False"
| "match_prefix (p # ps) (c # cs) = (p c \<and> match_prefix ps cs)"

definition match_ref :: "string \<Rightarrow> (string \<times> string) option" where
  "match_ref s =
     (if match_prefix ref_pattern s then Some (take 39 s, take 32 (drop 6 s)) else None)"

text \<open>
  \<^verbatim>\<open>re.findall\<close> and \<^verbatim>\<open>re.sub\<close> for this pattern: the scan goes from left to right; at a
  position where the pattern matches, the match is taken and the scan goes on after it,
  elsewhere it moves on by one character. \<^verbatim>\<open>re.findall\<close> returns group 1 of every match;
  \<^verbatim>\<open>re.sub\<close> writes what the replacement function returns for a match (given as the pair
  of group 0 and group 1) and copies the other characters.
\<close>

function re_findall :: "string \<Rightarrow> string list" where
  "re_findall [] = []"
| "re_findall (c # cs) =
     (case match_ref (c # cs) of
        Some (group0, group1) \<Rightarrow> group1 # re_findall (drop 39 (c # cs))
      | None \<Rightarrow> re_findall cs)"
  by pat_completeness auto
termination
  by (relation "measure length") auto

function re_sub :: "(string \<times> string \<Rightarrow> string) \<Rightarrow> string \<Rightarrow> string" where
  "re_sub repl [] = []"
| "re_sub repl (c # cs) =
     (case match_ref (c # cs) of
        Some m \<Rightarrow> repl m @ re_sub repl (drop 39 (c # cs))
      | None \<Rightarrow> c # re_sub repl cs)"
  by pat_completeness auto
termination
  by (relation "measure (\<lambda>(repl, s). length s)") auto

text \<open>
  The text of a reference to an identifier, and what an identifier is; both are used to
  state properties only.
\<close>

definition ref_text :: "string \<Rightarrow> string" where
  "ref_text rid = ''![](:/'' @ rid @ '')''"

definition hex32 :: "string \<Rightarrow> bool" where
  "hex32 rid = (length rid = 32 \<and> list_all hex_char rid)"

section \<open>The file system\<close>

text \<open>
  The part of the file system the program uses: regular files with their contents,
  directories, and a trace of what the program did (the calls that change the file
  system, and the warning it prints for a resource that is not in the index). Paths are
  strings and are looked up as they are written; only \<^verbatim>\<open>os.makedirs\<close> resolves
  \<^verbatim>\<open>.\<close>, \<^verbatim>\<open>..\<close> and repeated separators, and there are no links. A path made of separators only is the root directory, which always
  exists; the empty path as a parent is the current directory. A call that Python would
  end with an exception returns \<open>Inl\<close> of the error and the world as it is then.
\<close>

datatype os_error =
    FileNotFoundError string
  | FileExistsError string
  | IsADirectoryError string
  | NotADirectoryError string
  | KeyError string
  | ValueError string

datatype event =
    ResourceNotFound string
  | MakeDirs string
  | CopyFile string string
  | WriteFile string string

record world =
  files :: "string \<rightharpoonup> string"
  dirs :: "string set"
  trace :: "event list"

text \<open>
  \<^verbatim>\<open>os.path.isdir\<close>, \<^verbatim>\<open>os.path.exists\<close>, \<^verbatim>\<open>os.path.join\<close> (of two paths) and
  \<^verbatim>\<open>os.path.dirname\<close> of \<^verbatim>\<open>posixpath\<close>.
\<close>

definition is_root :: "string \<Rightarrow> bool" where
  "is_root p = (p \<noteq> [] \<and> list_all (\<lambda>c. c = CHR ''/'') p)"

definition os_path_isdir :: "world \<Rightarrow> string \<Rightarrow> bool" where
  "os_path_isdir w p = (p \<in> dirs w \<or> is_root p)"

definition os_path_exists :: "world \<Rightarrow> string \<Rightarrow> bool" where
  "os_path_exists w p = (files w p \<noteq> None \<or> os_path_isdir w p)"

definition os_path_join :: "string \<Rightarrow> string \<Rightarrow> string" where
  "os_path_join a b =
     (if b \<noteq> [] \<and> hd b = CHR ''/'' then b
      else if a = [] \<or> last a = CHR ''/'' then a @ b
      else a @ ''/'' @ b)"

definition os_path_dirname :: "string \<Rightarrow> string" where
  "os_path_dirname p =
     (let head = rev (dropWhile (\<lambda>c. c \<noteq> CHR ''/'') (rev p))
      in if head \<noteq> [] \<and> \<not> is_root head
         then rev (dropWhile (\<lambda>c. c = CHR ''/'') (rev head)) else head)"

text \<open>
  \<^verbatim>\<open>posixpath.normpath\<close>: the path without empty components, \<^verbatim>\<open>.\<close> and, where a
  component stands before it, \<^verbatim>\<open>..\<close> with that component. Without symbolic links this is
  the directory that a path names once its ancestors exist.
\<close>

fun split_slash :: "string \<Rightarrow> string list" where
  "split_slash [] = [[]]"
| "split_slash (c # cs) =
     (if c = CHR ''/'' then [] # split_slash cs
      else (case split_slash cs of [] \<Rightarrow> [[c]] | x # xs \<Rightarrow> (c # x) # xs))"

fun join_slash :: "string list \<Rightarrow> string" where
  "join_slash [] = []"
| "join_slash [x] = x"
| "join_slash (x # y # ys) = x @ CHR ''/'' # join_slash (y # ys)"

fun normpath_comps :: "bool \<Rightarrow> string list \<Rightarrow> string list \<Rightarrow> string list" where
  "normpath_comps initial_slashes [] new_comps = new_comps"
| "normpath_comps initial_slashes (part # comps) new_comps =
     (if part = [] \<or> part = ''.'' then normpath_comps initial_slashes comps new_comps
      else if part \<noteq> ''..'' \<or> (\<not> initial_slashes \<and> new_comps = []) \<or>
              (new_comps \<noteq> [] \<and> last new_comps = ''..'')
      then normpath_comps initial_slashes comps (new_comps @ [part])
      else if new_comps \<noteq> [] then normpath_comps initial_slashes comps (butlast new_comps)
      else normpath_comps initial_slashes comps new_comps)"

definition os_path_normpath :: "string \<Rightarrow> string" where
  "os_path_normpath path =
     (if path = [] then ''.''
      else (let initial_slashes =
                  (if hd path \<noteq> CHR ''/'' then 0
                   else if take 2 path = ''//'' \<and> take 3 path \<noteq> ''///'' then 2 else 1 :: nat);
                new_comps = normpath_comps (initial_slashes \<noteq> 0) (split_slash path) [];
                p = replicate initial_slashes (CHR ''/'') @ join_slash new_comps
            in if p = [] then ''.'' else p))"

text \<open>
  \<open>path_prefixes\<close> are the ancestors of a path as they are written, from the outermost,
  and the path itself. \<^verbatim>\<open>os.makedirs(name, exist_ok=True)\<close> makes each of them that is
  missing, one after the other, so that afterwards each of them exists as written, and so
  does the directory that each of them names (\<open>made_dirs\<close>): making
  \<^verbatim>\<open>/v/joplin/../assets\<close> makes \<^verbatim>\<open>/v\<close>, \<^verbatim>\<open>/v/joplin\<close> and \<^verbatim>\<open>/v/assets\<close>. The call fails when
  one of these is a regular file. A path is \<open>normal_path\<close> when it and its ancestors are
  written in normal form. \<^verbatim>\<open>shutil.copyfile\<close> and writing a file fail when the source is
  missing or a directory, the destination is a directory, or the destination's parent is
  no directory.
\<close>

definition path_prefixes :: "string \<Rightarrow> string list" where
  "path_prefixes p = [take i p. i \<leftarrow> [1..<length p], p ! i = CHR ''/''] @ [p]"

definition parent_usable :: "world \<Rightarrow> string \<Rightarrow> bool" where
  "parent_usable w p = (os_path_dirname p = [] \<or> os_path_isdir w (os_path_dirname p))"

definition log_event :: "event \<Rightarrow> world \<Rightarrow> world" where
  "log_event e w = w\<lparr>trace := trace w @ [e]\<rparr>"

definition made_dirs :: "string \<Rightarrow> string list" where
  "made_dirs name = path_prefixes name @ map os_path_normpath (path_prefixes name)"

definition normal_path :: "string \<Rightarrow> bool" where
  "normal_path p = (map os_path_normpath (path_prefixes p) = path_prefixes p)"

definition os_makedirs :: "string \<Rightarrow> world \<Rightarrow> (os_error + unit) \<times> world" where
  "os_makedirs name w0 =
     (let w = log_event (MakeDirs name) w0
      in if files w name \<noteq> None \<or> files w (os_path_normpath name) \<noteq> None
         then (Inl (FileExistsError name), w)
         else if list_ex (\<lambda>q. files w q \<noteq> None) (made_dirs name)
         then (Inl (NotADirectoryError name), w)
         else (Inr (), w\<lparr>dirs := dirs w \<union> set (made_dirs name)\<rparr>))"

definition shutil_copyfile :: "string \<Rightarrow> string \<Rightarrow> world \<Rightarrow> (os_error + unit) \<times> world" where
  "shutil_copyfile src dst w0 =
     (let w = log_event (CopyFile src dst) w0
      in case files w src of
           None \<Rightarrow>
             (Inl (if os_path_isdir w src then IsADirectoryError src else FileNotFoundError src), w)
         | Some data \<Rightarrow>
             if os_path_isdir w dst then (Inl (IsADirectoryError dst), w)
             else if \<not> parent_usable w dst then (Inl (FileNotFoundError dst), w)
             else (Inr (), w\<lparr>files := (files w)(dst \<mapsto> data)\<rparr>))"

definition write_file :: "string \<Rightarrow> string \<Rightarrow> world \<Rightarrow> (os_error + unit) \<times> world" where
  "write_file path content w0 =
     (let w = log_event (WriteFile path content) w0
      in if os_path_isdir w path then (Inl (IsADirectoryError path), w)
         else if \<not> parent_usable w path then (Inl (FileNotFoundError path), w)
         else (Inr (), w\<lparr>files := (files w)(path \<mapsto> content)\<rparr>))"

section \<open>\<^verbatim>\<open>process_resources\<close>\<close>

text \<open>
  The configuration (lines 17 to 29). \<^verbatim>\<open>JOPLIN_RESOURCE_DIR\<close> depends on the user's home
  directory and \<^verbatim>\<open>VAULT_DIR\<close> is a path outside ASCII: both are parameters here. The
  folder names and the image extensions are the constants of the source.
\<close>

record env =
  JOPLIN_RESOURCE_DIR :: string
  VAULT_DIR :: string

definition OUTPUT_FOLDER :: string where "OUTPUT_FOLDER = ''joplin''"
definition ASSETS_FOLDER :: string where "ASSETS_FOLDER = ''assets''"
definition TARGET_FOLDER_NAME :: string where "TARGET_FOLDER_NAME = ''joplin''"

definition IMAGE_EXTENSIONS :: "string set" where
  "IMAGE_EXTENSIONS = {''png'', ''jpg'', ''jpeg'', ''gif'', ''bmp'', ''svg'', ''webp''}"

text \<open>
  \<^verbatim>\<open>f"{image_counter:03d}"\<close>: the decimal digits of the counter, padded with zeros on
  the left to three characters.
\<close>

definition digit_char :: "nat \<Rightarrow> char" where
  "digit_char d = char_of (48 + d)"

function str_of_nat :: "nat \<Rightarrow> string" where
  "str_of_nat n =
     (if n < 10 then [digit_char n] else str_of_nat (n div 10) @ [digit_char (n mod 10)])"
  by pat_completeness auto
termination
  by (relation "measure id") auto

declare str_of_nat.simps [simp del]

definition format_03d :: "nat \<Rightarrow> string" where
  "format_03d n = (let d = str_of_nat n in replicate (3 - length d) (CHR ''0'') @ d)"

text \<open>
  \<^verbatim>\<open>d[k] = v\<close> on a dictionary kept as the list of its items in insertion order: a
  key that is there keeps its place, a new key goes to the end. \<^verbatim>\<open>d.items()\<close> is the
  list, \<^verbatim>\<open>k in d\<close> and \<^verbatim>\<open>d[k]\<close> are \<^const>\<open>map_of\<close>.
\<close>

fun dict_set :: "('k \<times> 'v) list \<Rightarrow> 'k \<Rightarrow> 'v \<Rightarrow> ('k \<times> 'v) list" where
  "dict_set [] k v = [(k, v)]"
| "dict_set ((k', v') # ps) k v =
     (if k' = k then (k', v) # ps else (k', v') # dict_set ps k v)"

text \<open>
  Lines 93 to 98: the identifiers in the order of their first occurrence.
\<close>

fun unique_rids_loop :: "string list \<Rightarrow> string set \<Rightarrow> string list \<Rightarrow> string list" where
  "unique_rids_loop [] seen_rids unique_rids = unique_rids"
| "unique_rids_loop (rid # rest) seen_rids unique_rids =
     (if rid \<notin> seen_rids
      then unique_rids_loop rest (insert rid seen_rids) (unique_rids @ [rid])
      else unique_rids_loop rest seen_rids unique_rids)"

text \<open>
  Lines 100 to 116: the new filename of every identifier that is in the index. The
  state of the loop is the mapping, the image counter and the world (a warning is
  printed for an identifier that is not in the index).
\<close>

fun assign_loop ::
  "(string \<rightharpoonup> string) \<Rightarrow> string \<Rightarrow> string list \<Rightarrow>
   (string \<times> string) list \<times> nat \<times> world \<Rightarrow> (string \<times> string) list \<times> nat \<times> world" where
  "assign_loop resource_lookup note_base_name [] st = st"
| "assign_loop resource_lookup note_base_name (rid # rest) (rid_to_new_filename, image_counter, w) =
     (case resource_lookup rid of
        None \<Rightarrow>
          assign_loop resource_lookup note_base_name rest
            (rid_to_new_filename, image_counter, log_event (ResourceNotFound rid) w)
      | Some res_filename \<Rightarrow>
          (let ext = py_lower (last_dot_segment res_filename)
           in if ext \<in> IMAGE_EXTENSIONS
              then assign_loop resource_lookup note_base_name rest
                     (dict_set rid_to_new_filename rid
                        (note_base_name @ ''-'' @ format_03d (image_counter + 1) @ ''.'' @ ext),
                      image_counter + 1, w)
              else assign_loop resource_lookup note_base_name rest
                     (dict_set rid_to_new_filename rid res_filename, image_counter, w)))"

text \<open>
  Lines 120 to 129: the body of the copy loop for one item of the mapping, and the loop.
  The state is the flag \<^verbatim>\<open>assets_created\<close> and the world; an error ends the loop.
\<close>

definition copy_resource ::
  "env \<Rightarrow> (string \<rightharpoonup> string) \<Rightarrow> string \<Rightarrow> string \<times> string \<Rightarrow> bool \<times> world \<Rightarrow>
   (os_error + bool) \<times> world" where
  "copy_resource e resource_lookup assets_dir item st =
     (case (item, st) of ((rid, new_filename), (assets_created, w)) \<Rightarrow>
        (case resource_lookup rid of
           None \<Rightarrow> (Inl (KeyError rid), w)
         | Some res_filename \<Rightarrow>
             (let src_path = os_path_join (JOPLIN_RESOURCE_DIR e) res_filename;
                  dst_path = os_path_join assets_dir new_filename
              in if os_path_exists w src_path \<and> \<not> os_path_exists w dst_path
                 then (if \<not> assets_created \<and> \<not> os_path_exists w assets_dir
                       then (case os_makedirs assets_dir w of
                               (Inl err, w1) \<Rightarrow> (Inl err, w1)
                             | (Inr u, w1) \<Rightarrow>
                                 (case shutil_copyfile src_path dst_path w1 of
                                    (Inl err, w2) \<Rightarrow> (Inl err, w2)
                                  | (Inr u', w2) \<Rightarrow> (Inr True, w2)))
                       else (case shutil_copyfile src_path dst_path w of
                               (Inl err, w2) \<Rightarrow> (Inl err, w2)
                             | (Inr u', w2) \<Rightarrow> (Inr assets_created, w2)))
                 else (Inr assets_created, w))))"

fun copy_loop ::
  "env \<Rightarrow> (string \<rightharpoonup> string) \<Rightarrow> string \<Rightarrow> (string \<times> string) list \<Rightarrow> bool \<times> world \<Rightarrow>
   (os_error + bool) \<times> world" where
  "copy_loop e resource_lookup assets_dir [] (assets_created, w) = (Inr assets_created, w)"
| "copy_loop e resource_lookup assets_dir (item # rest) (assets_created, w) =
     (case copy_resource e resource_lookup assets_dir item (assets_created, w) of
        (Inl err, w') \<Rightarrow> (Inl err, w')
      | (Inr created', w') \<Rightarrow> copy_loop e resource_lookup assets_dir rest (created', w'))"

text \<open>
  Lines 132 to 138: the replacement function given to \<^verbatim>\<open>re.sub\<close>.
\<close>

definition replace_resource :: "(string \<times> string) list \<Rightarrow> string \<times> string \<Rightarrow> string" where
  "replace_resource rid_to_new_filename m =
     (case m of (group0, rid) \<Rightarrow>
        (case map_of rid_to_new_filename rid of
           Some new_filename \<Rightarrow> ''![]('' @ new_filename @ '')''
         | None \<Rightarrow> group0))"

text \<open>
  \<^verbatim>\<open>process_resources\<close> (lines 80 to 143). Its first part, up to line 116, is
  \<open>rid_to_new_filename_of\<close>: the scan of the body, the unique identifiers and the rename
  mapping, starting from an empty mapping and the counter 0. Then the files are copied,
  the links are rewritten and \<^verbatim>\<open>&nbsp;\<close> is replaced. The result is the text, or the error
  that copying raised, and the world after the call.
\<close>

definition rid_to_new_filename_of ::
  "string \<Rightarrow> (string \<rightharpoonup> string) \<Rightarrow> string \<Rightarrow> world \<Rightarrow> (string \<times> string) list \<times> nat \<times> world" where
  "rid_to_new_filename_of body resource_lookup note_base_name w =
     assign_loop resource_lookup note_base_name
       (unique_rids_loop (re_findall body) {} []) ([], 0, w)"

definition process_resources ::
  "env \<Rightarrow> string \<Rightarrow> (string \<rightharpoonup> string) \<Rightarrow> string \<Rightarrow> string \<Rightarrow> world \<Rightarrow>
   (os_error + string) \<times> world" where
  "process_resources e body resource_lookup note_base_name assets_dir w =
     (case rid_to_new_filename_of body resource_lookup note_base_name w of
        (rid_to_new_filename, image_counter, w1) \<Rightarrow>
          (case copy_loop e resource_lookup assets_dir rid_to_new_filename (False, w1) of
             (Inl err, w2) \<Rightarrow> (Inl err, w2)
           | (Inr created, w2) \<Rightarrow>
               (Inr (str_replace ''&nbsp;'' '' ''
                       (re_sub (replace_resource rid_to_new_filename) body)), w2)))"

text \<open>
  A condition under which the copy loop of \<^verbatim>\<open>process_resources\<close> raises no error; it is
  used to state when the call returns a text. The assets directory is written in normal
  form and does not end in a separator, neither it nor an ancestor of it is a regular
  file, and every item of the mapping has a new filename without a separator and an
  identifier that is in the index, whose source path is no directory and no ancestor of
  the assets directory.
\<close>

definition can_copy ::
  "env \<Rightarrow> (string \<rightharpoonup> string) \<Rightarrow> string \<Rightarrow> (string \<times> string) list \<Rightarrow> world \<Rightarrow> bool" where
  "can_copy e resource_lookup assets_dir rid_to_new_filename w =
     (assets_dir \<noteq> [] \<and> last assets_dir \<noteq> CHR ''/'' \<and> normal_path assets_dir \<and>
      list_all (\<lambda>q. files w q = None) (path_prefixes assets_dir) \<and>
      list_all (\<lambda>(rid, new_filename). CHR ''/'' \<notin> set new_filename \<and>
         (case resource_lookup rid of
            None \<Rightarrow> False
          | Some res_filename \<Rightarrow>
              \<not> os_path_isdir w (os_path_join (JOPLIN_RESOURCE_DIR e) res_filename) \<and>
              os_path_join (JOPLIN_RESOURCE_DIR e) res_filename \<notin> set (path_prefixes assets_dir)))
        rid_to_new_filename)"

text \<open>
  The text that the specification asks for, written without the scanner. A body is given
  by its pieces: \<open>body_of segs rest\<close> is, for every pair \<open>(gap, rid)\<close> of \<open>segs\<close>, the text
  \<open>gap\<close> followed by the reference to \<open>rid\<close>, and then the text \<open>rest\<close>. In
  \<open>links_rewritten names segs rest\<close> every reference whose identifier has a new filename in
  \<open>names\<close> is the link \<^verbatim>\<open>![](<new filename>)\<close>, and every other piece is as it was.
\<close>

definition body_of :: "(string \<times> string) list \<Rightarrow> string \<Rightarrow> string" where
  "body_of segs rest = concat (map (\<lambda>(gap, rid). gap @ ref_text rid) segs) @ rest"

definition links_rewritten ::
  "(string \<rightharpoonup> string) \<Rightarrow> (string \<times> string) list \<Rightarrow> string \<Rightarrow> string" where
  "links_rewritten names segs rest =
     concat (map (\<lambda>(gap, rid). gap @
                    (case names rid of
                       Some new_filename \<Rightarrow> ''![]('' @ new_filename @ '')''
                     | None \<Rightarrow> ref_text rid)) segs) @ rest"

section \<open>\<^verbatim>\<open>export_notes\<close>: one note\<close>

text \<open>
  The body of the loop over the notes (lines 190 to 227) for one row
  \<^verbatim>\<open>(note_id, title, body, parent_id)\<close>, where title and body may be null: the result is
  the relative path that is reported, or the error that the \<^verbatim>\<open>except\<close> clause catches.
  \<open>export_loop\<close> is the loop with its two counters.
\<close>

definition export_note ::
  "env \<Rightarrow> (string \<rightharpoonup> string) \<Rightarrow> (string \<rightharpoonup> string) \<Rightarrow>
   string \<times> string option \<times> string option \<times> string \<Rightarrow> world \<Rightarrow> (os_error + string) \<times> world" where
  "export_note e folder_hierarchy resource_lookup row w =
     (case row of (note_id, title, body, parent_id) \<Rightarrow>
        (let output_dir = (if OUTPUT_FOLDER \<noteq> [] then os_path_join (VAULT_DIR e) OUTPUT_FOLDER
                           else VAULT_DIR e);
             assets_dir = os_path_join (VAULT_DIR e) ASSETS_FOLDER;
             folder_path = (case folder_hierarchy parent_id of Some p \<Rightarrow> p | None \<Rightarrow> []);
             safe_title = safe_title_of title;
             note_dir = (if folder_path \<noteq> [] then os_path_join output_dir folder_path
                         else output_dir);
             output_file = os_path_join note_dir (safe_title @ ''.md'');
             relative_path = (if folder_path \<noteq> []
                              then os_path_join folder_path (safe_title @ ''.md'')
                              else safe_title @ ''.md'');
             processed_body = (case body of None \<Rightarrow> [] | Some b \<Rightarrow> b)
         in case (if processed_body \<noteq> []
                  then process_resources e processed_body resource_lookup safe_title assets_dir w
                  else (Inr processed_body, w)) of
              (Inl err, w1) \<Rightarrow> (Inl err, w1)
            | (Inr text, w1) \<Rightarrow>
                (case (if \<not> os_path_exists w1 note_dir then os_makedirs note_dir w1
                       else (Inr (), w1)) of
                   (Inl err, w2) \<Rightarrow> (Inl err, w2)
                 | (Inr u, w2) \<Rightarrow>
                     (case write_file output_file text w2 of
                        (Inl err, w3) \<Rightarrow> (Inl err, w3)
                      | (Inr u', w3) \<Rightarrow> (Inr relative_path, w3)))))"

fun export_loop ::
  "env \<Rightarrow> (string \<rightharpoonup> string) \<Rightarrow> (string \<rightharpoonup> string) \<Rightarrow>
   (string \<times> string option \<times> string option \<times> string) list \<Rightarrow> nat \<times> nat \<times> world \<Rightarrow>
   nat \<times> nat \<times> world" where
  "export_loop e folder_hierarchy resource_lookup [] st = st"
| "export_loop e folder_hierarchy resource_lookup (row # rows) (success_count, fail_count, w) =
     (case export_note e folder_hierarchy resource_lookup row w of
        (Inl err, w') \<Rightarrow>
          export_loop e folder_hierarchy resource_lookup rows (success_count, fail_count + 1, w')
      | (Inr relative_path, w') \<Rightarrow>
          export_loop e folder_hierarchy resource_lookup rows (success_count + 1, fail_count, w'))"

section \<open>\<^verbatim>\<open>get_folder_hierarchy\<close>\<close>

text \<open>
  The table \<^verbatim>\<open>folders\<close> is the list of its rows \<^verbatim>\<open>(id, title, parent_id)\<close>, in the order
  in which the database returns them. The two queries of the source (lines 53 and 65):
\<close>

type_synonym folder_row = "string \<times> string \<times> string"

definition select_root_ids :: "folder_row list \<Rightarrow> string \<Rightarrow> string list" where
  "select_root_ids folders target_folder_name =
     [folder_id. (folder_id, title, parent_id) \<leftarrow> folders,
        title = target_folder_name \<and> parent_id = []]"

definition select_subfolders :: "folder_row list \<Rightarrow> string \<Rightarrow> (string \<times> string) list" where
  "select_subfolders folders parent =
     [(folder_id, title). (folder_id, title, parent_id) \<leftarrow> folders, parent_id = parent]"

text \<open>
  \<^verbatim>\<open>build_hierarchy\<close> (lines 64 to 74) calls itself for every subfolder and need not
  return when the table has a cycle. The model counts the depth of the recursion down
  from a budget and returns \<open>None\<close> when the budget is used up; \<open>for_subfolders\<close> is the
  loop over the subfolders, with the recursive call as a parameter. The dictionary
  \<^verbatim>\<open>folder_hierarchy\<close> that the source updates in place is passed through.
\<close>

fun for_subfolders ::
  "(string \<Rightarrow> string \<Rightarrow> (string \<rightharpoonup> string) \<Rightarrow> (string \<rightharpoonup> string) option) \<Rightarrow>
   string \<Rightarrow> (string \<times> string) list \<Rightarrow> (string \<rightharpoonup> string) \<Rightarrow> (string \<rightharpoonup> string) option" where
  "for_subfolders recurse path [] folder_hierarchy = Some folder_hierarchy"
| "for_subfolders recurse path ((folder_id, folder_title) # subfolders) folder_hierarchy =
     (let folder_path = (if path \<noteq> [] then os_path_join path (sanitize_filename folder_title)
                         else sanitize_filename folder_title)
      in case recurse folder_id folder_path (folder_hierarchy(folder_id \<mapsto> folder_path)) of
           None \<Rightarrow> None
         | Some folder_hierarchy' \<Rightarrow> for_subfolders recurse path subfolders folder_hierarchy')"

primrec build_hierarchy ::
  "nat \<Rightarrow> folder_row list \<Rightarrow> string \<Rightarrow> string \<Rightarrow> (string \<rightharpoonup> string) \<Rightarrow> (string \<rightharpoonup> string) option" where
  "build_hierarchy 0 folders parent_id path folder_hierarchy = None"
| "build_hierarchy (Suc fuel) folders parent_id path folder_hierarchy =
     for_subfolders (build_hierarchy fuel folders) path (select_subfolders folders parent_id)
       folder_hierarchy"

text \<open>
  \<^verbatim>\<open>get_folder_hierarchy\<close> (lines 51 to 77): \<^verbatim>\<open>fetchone\<close> takes the first row of the
  first query, and \<^verbatim>\<open>ValueError\<close> is raised when there is none.
\<close>

definition get_folder_hierarchy ::
  "nat \<Rightarrow> folder_row list \<Rightarrow> string \<Rightarrow> (os_error + (string \<rightharpoonup> string) \<times> string) option" where
  "get_folder_hierarchy fuel folders target_folder_name =
     (case select_root_ids folders target_folder_name of
        [] \<Rightarrow> Some (Inl (ValueError target_folder_name))
      | root_folder_id # others \<Rightarrow>
          (case build_hierarchy fuel folders root_folder_id [] [root_folder_id \<mapsto> []] of
             None \<Rightarrow> None
           | Some folder_hierarchy \<Rightarrow> Some (Inr (folder_hierarchy, root_folder_id))))"

text \<open>
  The edges from a parent to its subfolders, to state that a table has no cycle.
\<close>

definition child_edges :: "folder_row list \<Rightarrow> (string \<times> string) set" where
  "child_edges folders = (\<lambda>(folder_id, title, parent_id). (parent_id, folder_id)) ` set folders"

section \<open>Example data\<close>

text \<open>
  Four identifiers, an index with two images and a document, and three worlds: one with
  an asset that is already there, an empty one, and one with the source files of the
  first image and of the document but not of the second image, and no assets directory.
\<close>

definition rid_a :: string where "rid_a = replicate 32 (CHR ''a'')"
definition rid_b :: string where "rid_b = replicate 32 (CHR ''b'')"
definition rid_c :: string where "rid_c = replicate 32 (CHR ''c'')"
definition rid_d :: string where "rid_d = replicate 32 (CHR ''d'')"

definition example_lookup :: "string \<rightharpoonup> string" where
  "example_lookup =
     [rid_a \<mapsto> rid_a @ ''.png'', rid_b \<mapsto> rid_b @ ''.JPG'', rid_c \<mapsto> rid_c @ ''.pdf'']"

definition example_env :: env where
  "example_env = \<lparr>JOPLIN_RESOURCE_DIR = ''/res'', VAULT_DIR = ''/v''\<rparr>"

definition example_world :: world where
  "example_world =
     \<lparr>files = [''/res/'' @ rid_a @ ''.png'' \<mapsto> ''new image'',
               ''/v/assets/Trip-001.png'' \<mapsto> ''old image''],
      dirs = {''/res'', ''/v'', ''/v/assets''},
      trace = []\<rparr>"

definition empty_world :: world where
  "empty_world = \<lparr>files = Map.empty, dirs = {}, trace = []\<rparr>"

definition source_world :: world where
  "source_world =
     \<lparr>files = [''/res/'' @ rid_a @ ''.png'' \<mapsto> ''image a'',
               ''/res/'' @ rid_c @ ''.pdf'' \<mapsto> ''document c''],
      dirs = {''/res'', ''/v''},
      trace = []\<rparr>"

text \<open>A table with two trees; the root \<^verbatim>\<open>r\<close> has the target title.\<close>

definition example_folders :: "folder_row list" where
  "example_folders =
     [(''r'', ''joplin'', []), (''a1'', ''Work: 2024'', ''r''), (''b22'', ''a/b'', ''a1''),
      (''c1'', ''Home'', ''r''), (''x'', ''other'', []), (''y1'', ''joplin'', ''x'')]"

text \<open>
  A table where the notebook \<^verbatim>\<open>..\<close> holds the notebook \<^verbatim>\<open>assets\<close>, and the hierarchy
  that \<^verbatim>\<open>get_folder_hierarchy\<close> returns for it.
\<close>

definition dotdot_folders :: "folder_row list" where
  "dotdot_folders = [(''r'', ''joplin'', []), (''d'', ''..'', ''r''), (''a'', ''assets'', ''d'')]"

definition dotdot_hierarchy :: "string \<rightharpoonup> string" where
  "dotdot_hierarchy = [''r'' \<mapsto> [], ''d'' \<mapsto> ''..'', ''a'' \<mapsto> ''../assets'']"

section \<open>Scanning for references\<close>

lemma match_prefix_length: "match_prefix ps s \<Longrightarrow> length ps \<le> length s"
  by (induction ps s rule: match_prefix.induct) auto

lemma match_prefix_reject:
  "list_all (\<lambda>p. \<not> p x) ps \<Longrightarrow> match_prefix ps (pre @ x # rest) = match_prefix ps pre"
proof (induction ps pre rule: match_prefix.induct)
  case (1 s)
  then show ?case by simp
next
  case (2 p ps)
  then show ?case by simp
next
  case (3 p ps c cs)
  then show ?case by simp
qed

lemma match_prefix_append:
  "length xs = length ps \<Longrightarrow> match_prefix (ps @ qs) (xs @ s) = (match_prefix ps xs \<and> match_prefix qs s)"
  by (induction ps xs rule: match_prefix.induct) auto

lemma match_prefix_literal: "match_prefix (map (\<lambda>p c. c = p) xs) xs"
  by (induction xs) auto

lemma match_prefix_replicate: "list_all P r \<Longrightarrow> match_prefix (replicate (length r) P) r"
  by (induction r) auto

lemma length_ref_pattern: "length ref_pattern = 39"
  by (simp add: ref_pattern_def)

lemma ref_pattern_Cons:
  "\<exists>tl. ref_pattern = (\<lambda>c. c = CHR ''!'') # tl \<and> list_all (\<lambda>p. \<not> p (CHR ''!'')) tl"
  by (simp add: ref_pattern_def hex_char_def list_all_iff)

lemma match_ref_bang:
  "pre \<noteq> [] \<Longrightarrow> match_ref (pre @ CHR ''!'' # rest) = match_ref pre"
proof -
  assume ne: "pre \<noteq> []"
  obtain tl where tl: "ref_pattern = (\<lambda>c. c = CHR ''!'') # tl"
    "list_all (\<lambda>p. \<not> p (CHR ''!'')) tl"
    using ref_pattern_Cons by blast
  obtain c cs where pre: "pre = c # cs" using ne by (cases pre) auto
  have m: "match_prefix ref_pattern (pre @ CHR ''!'' # rest) = match_prefix ref_pattern pre"
    using match_prefix_reject [OF tl(2), of cs rest] by (simp add: tl(1) pre)
  show ?thesis
  proof (cases "match_prefix ref_pattern pre")
    case True
    then have "39 \<le> length pre"
      using match_prefix_length [of ref_pattern pre] by (simp add: length_ref_pattern)
    then show ?thesis using m True by (simp add: match_ref_def)
  next
    case False
    then show ?thesis using m by (simp add: match_ref_def)
  qed
qed

lemma match_ref_length: "match_ref s = Some m \<Longrightarrow> 39 \<le> length s"
  using match_prefix_length [of ref_pattern s]
  by (auto simp: match_ref_def length_ref_pattern split: if_splits)

lemma re_sub_bang:
  "re_sub repl (pre @ CHR ''!'' # rest) = re_sub repl pre @ re_sub repl (CHR ''!'' # rest)"
proof (induction repl pre rule: re_sub.induct)
  case (1 repl)
  then show ?case by simp
next
  case (2 repl c cs)
  have m: "match_ref ((c # cs) @ CHR ''!'' # rest) = match_ref (c # cs)"
    by (rule match_ref_bang) simp
  show ?case
  proof (cases "match_ref (c # cs)")
    case None
    with 2 m show ?thesis by simp
  next
    case (Some a)
    then have len: "39 \<le> length (c # cs)" by (rule match_ref_length)
    have "drop 39 ((c # cs) @ CHR ''!'' # rest) = drop 39 (c # cs) @ CHR ''!'' # rest"
      using len by simp
    with 2 m Some show ?thesis by simp
  qed
qed

lemma re_findall_bang:
  "re_findall (pre @ CHR ''!'' # rest) = re_findall pre @ re_findall (CHR ''!'' # rest)"
proof (induction pre rule: re_findall.induct)
  case 1
  then show ?case by simp
next
  case (2 c cs)
  have m: "match_ref ((c # cs) @ CHR ''!'' # rest) = match_ref (c # cs)"
    by (rule match_ref_bang) simp
  show ?case
  proof (cases "match_ref (c # cs)")
    case None
    with 2 m show ?thesis by simp
  next
    case (Some a)
    obtain g0 g1 where a: "a = (g0, g1)" by (cases a)
    from Some have len: "39 \<le> length (c # cs)" by (rule match_ref_length)
    have "drop 39 ((c # cs) @ CHR ''!'' # rest) = drop 39 (c # cs) @ CHR ''!'' # rest"
      using len by simp
    with 2 m Some a show ?thesis by simp
  qed
qed

lemma match_ref_ref_text:
  assumes "hex32 rid"
  shows "match_ref (ref_text rid @ post) = Some (ref_text rid, rid)"
proof -
  have len: "length rid = 32" and hex: "list_all hex_char rid"
    using assms by (simp_all add: hex32_def)
  have 1: "match_prefix (replicate 32 hex_char @ [\<lambda>c. c = CHR '')'']) (rid @ CHR '')'' # post)"
    using match_prefix_append [of rid "replicate 32 hex_char" "[\<lambda>c. c = CHR '')'']" "CHR '')'' # post"]
      match_prefix_replicate [OF hex] len by simp
  have "match_prefix ref_pattern (ref_text rid @ post)"
    unfolding ref_pattern_def ref_text_def
    using match_prefix_append [of "''![](:/''" "map (\<lambda>p c. c = p) ''![](:/''"
        "replicate 32 hex_char @ [\<lambda>c. c = CHR '')'']" "rid @ CHR '')'' # post"]
      match_prefix_literal [of "''![](:/''"] 1
    by simp
  then show ?thesis
    using len by (simp add: match_ref_def ref_text_def)
qed

section \<open>Scanning a body that holds a reference\<close>

lemma length_ref_text: "hex32 rid \<Longrightarrow> length (ref_text rid) = 39"
  by (simp add: hex32_def ref_text_def)

lemma ref_text_bang: "\<exists>cs. ref_text rid @ rest = CHR ''!'' # cs"
  by (simp add: ref_text_def)

lemma re_findall_head:
  assumes "hex32 rid"
  shows "re_findall (ref_text rid @ rest) = rid # re_findall rest"
proof -
  obtain cs where cs: "ref_text rid @ rest = CHR ''!'' # cs"
    using ref_text_bang by blast
  have m: "match_ref (CHR ''!'' # cs) = Some (ref_text rid, rid)"
    using match_ref_ref_text [OF assms, of rest] cs by simp
  have d: "drop 39 (CHR ''!'' # cs) = rest"
    using length_ref_text [OF assms] cs [symmetric] by simp
  have "re_findall (CHR ''!'' # cs) = rid # re_findall rest"
    using m d by (simp del: drop_Suc_Cons)
  then show ?thesis using cs by simp
qed

lemma re_sub_head:
  assumes "hex32 rid"
  shows "re_sub repl (ref_text rid @ rest) = repl (ref_text rid, rid) @ re_sub repl rest"
proof -
  obtain cs where cs: "ref_text rid @ rest = CHR ''!'' # cs"
    using ref_text_bang by blast
  have m: "match_ref (CHR ''!'' # cs) = Some (ref_text rid, rid)"
    using match_ref_ref_text [OF assms, of rest] cs by simp
  have d: "drop 39 (CHR ''!'' # cs) = rest"
    using length_ref_text [OF assms] cs [symmetric] by simp
  have "re_sub repl (CHR ''!'' # cs) = repl (ref_text rid, rid) @ re_sub repl rest"
    using m d by (simp del: drop_Suc_Cons)
  then show ?thesis using cs by simp
qed

lemma re_findall_ref:
  assumes "hex32 rid"
  shows "re_findall (pre @ ref_text rid @ rest) = re_findall pre @ rid # re_findall rest"
proof -
  obtain cs where cs: "ref_text rid @ rest = CHR ''!'' # cs"
    using ref_text_bang by blast
  have "re_findall (pre @ CHR ''!'' # cs) = re_findall pre @ re_findall (CHR ''!'' # cs)"
    by (rule re_findall_bang)
  then show ?thesis
    using re_findall_head [OF assms, of rest] cs by simp
qed

lemma re_sub_ref:
  assumes "hex32 rid"
  shows "re_sub repl (pre @ ref_text rid @ rest) =
         re_sub repl pre @ repl (ref_text rid, rid) @ re_sub repl rest"
proof -
  obtain cs where cs: "ref_text rid @ rest = CHR ''!'' # cs"
    using ref_text_bang by blast
  have "re_sub repl (pre @ CHR ''!'' # cs) = re_sub repl pre @ re_sub repl (CHR ''!'' # cs)"
    by (rule re_sub_bang)
  then show ?thesis
    using re_sub_head [OF assms, of repl rest] cs by simp
qed

lemma re_sub_no_refs: "re_findall s = [] \<Longrightarrow> re_sub repl s = s"
proof (induction s rule: re_findall.induct)
  case 1
  then show ?case by simp
next
  case (2 c cs)
  then show ?case by (cases "match_ref (c # cs)") auto
qed

section \<open>The rename mapping\<close>

lemma map_of_dict_set: "map_of (dict_set m k v) = (map_of m)(k \<mapsto> v)"
  by (induction m k v rule: dict_set.induct) (auto simp: fun_eq_iff)

lemma dict_set_fresh: "k \<notin> fst ` set m \<Longrightarrow> dict_set m k v = m @ [(k, v)]"
  by (induction m k v rule: dict_set.induct) auto

lemma unique_rids_loop_set:
  "set (unique_rids_loop rids seen acc) = set acc \<union> (set rids - seen)"
  by (induction rids seen acc rule: unique_rids_loop.induct) auto

lemma assign_loop_dom:
  "dom (map_of (fst (assign_loop lookup base rids (m, n, w)))) =
   dom (map_of m) \<union> {rid \<in> set rids. lookup rid \<noteq> None}"
  by (induction rids arbitrary: m n w)
     (auto simp: map_of_dict_set Let_def split: option.splits)

lemma rid_to_new_filename_dom:
  "dom (map_of (fst (rid_to_new_filename_of body lookup base w))) =
   {rid \<in> set (re_findall body). lookup rid \<noteq> None}"
  by (simp add: rid_to_new_filename_of_def assign_loop_dom unique_rids_loop_set)

lemma format_03d_1: "format_03d (Suc 0) = ''001''"
  by code_simp

lemma format_03d_2: "format_03d 2 = ''002''"
  by code_simp

lemma format_03d_1': "format_03d 1 = ''001''"
  by code_simp

lemma format_03d_2': "format_03d (Suc (Suc 0)) = ''002''"
  by code_simp

lemma hex32_examples: "hex32 rid_a" "hex32 rid_b" "hex32 rid_c" "hex32 rid_d"
  by (simp_all add: hex32_def hex_char_def list_all_iff rid_a_def rid_b_def rid_c_def rid_d_def)

lemma rid_examples_distinct:
  "rid_a \<noteq> rid_b" "rid_c \<noteq> rid_a" "rid_c \<noteq> rid_b" "rid_d \<noteq> rid_a" "rid_d \<noteq> rid_b" "rid_d \<noteq> rid_c"
  by (simp_all add: rid_a_def rid_b_def rid_c_def rid_d_def)

lemma example_lookup_simps:
  "example_lookup rid_a = Some (rid_a @ ''.png'')"
  "example_lookup rid_b = Some (rid_b @ ''.JPG'')"
  "example_lookup rid_c = Some (rid_c @ ''.pdf'')"
  "example_lookup rid_d = None"
  using rid_examples_distinct by (auto simp: example_lookup_def)

lemma example_extensions:
  "py_lower (last_dot_segment (rid_a @ ''.png'')) = ''png''"
  "py_lower (last_dot_segment (rid_b @ ''.JPG'')) = ''jpg''"
  "py_lower (last_dot_segment (rid_c @ ''.pdf'')) = ''pdf''"
proof -
  have l: "py_lower ''png'' = ''png''" "py_lower ''JPG'' = ''jpg''" "py_lower ''pdf'' = ''pdf''"
    by code_simp+
  show "py_lower (last_dot_segment (rid_a @ ''.png'')) = ''png''"
    "py_lower (last_dot_segment (rid_b @ ''.JPG'')) = ''jpg''"
    "py_lower (last_dot_segment (rid_c @ ''.pdf'')) = ''pdf''"
    by (simp_all add: last_dot_segment_def l)
qed

lemma example_image_extensions:
  "''png'' \<in> IMAGE_EXTENSIONS" "''jpg'' \<in> IMAGE_EXTENSIONS" "''pdf'' \<notin> IMAGE_EXTENSIONS"
  by (simp_all add: IMAGE_EXTENSIONS_def)

lemma example_gaps: "re_findall ''see '' = []" "re_findall [] = []" "re_findall '' and '' = []"
  by (simp_all add: match_ref_def ref_pattern_def)

section \<open>Replacement of the non-breaking-space markup\<close>

lemma str_replace_prefix:
  "old \<noteq> [] \<Longrightarrow> x \<notin> set t \<Longrightarrow> prefix t (str_replace old [x] s) \<Longrightarrow> prefix t s"
proof (induction t arbitrary: s)
  case Nil
  then show ?case by simp
next
  case (Cons a t)
  show ?case
  proof (cases s)
    case Nil
    with Cons.prems show ?thesis by simp
  next
    case (Cons c cs)
    show ?thesis
    proof (cases "take (length old) (c # cs) = old")
      case True
      with Cons.prems \<open>s = c # cs\<close> show ?thesis by simp
    next
      case False
      with Cons.prems \<open>s = c # cs\<close> have "a = c" "prefix t (str_replace old [x] cs)"
        by simp_all
      moreover have "x \<notin> set t" using Cons.prems by simp
      ultimately show ?thesis
        using Cons.IH [of cs] Cons.prems(1) \<open>s = c # cs\<close> by simp
    qed
  qed
qed

lemma str_replace_no_old:
  "old \<noteq> [] \<Longrightarrow> new = [x] \<Longrightarrow> x \<notin> set old \<Longrightarrow> \<not> sublist old (str_replace old new s)"
proof (induction old new s rule: str_replace.induct)
  case (1 old new)
  then show ?case by simp
next
  case (2 old new c cs)
  obtain a old' where old: "old = a # old'" using 2(4) by (cases old) auto
  show ?case
  proof (cases "take (length old) (c # cs) = old")
    case True
    have "\<not> prefix old (x # str_replace old new (drop (length old) (c # cs)))"
      using 2(6) old by auto
    moreover have "\<not> sublist old (str_replace old new (drop (length old) (c # cs)))"
      using 2(2) [OF 2(4) True 2(4) 2(5) 2(6)] .
    ultimately show ?thesis
      using True 2(4) 2(5) by (simp add: sublist_Cons_right)
  next
    case False
    have "\<not> prefix old (c # str_replace old new cs)"
    proof
      assume p: "prefix old (c # str_replace old new cs)"
      then have "a = c" "prefix old' (str_replace old [x] cs)"
        using old 2(5) by auto
      moreover have "x \<notin> set old'" using 2(6) old by simp
      ultimately have "prefix old' cs"
        using str_replace_prefix [OF 2(4)] by blast
      with \<open>a = c\<close> old have "prefix old (c # cs)" by simp
      then have "take (length old) (c # cs) = old"
        by (metis append_eq_conv_conj prefixE)
      with False show False by simp
    qed
    moreover have "\<not> sublist old (str_replace old new cs)"
      using 2(3) [OF 2(4) False 2(4) 2(5) 2(6)] .
    ultimately show ?thesis
      using False 2(4) by (simp add: sublist_Cons_right)
  qed
qed

lemma process_resources_fst:
  "fst (process_resources e body lookup base assets w) =
   map_sum id
     (\<lambda>created. str_replace ''&nbsp;'' '' ''
        (re_sub (replace_resource (fst (rid_to_new_filename_of body lookup base w))) body))
     (fst (copy_loop e lookup assets (fst (rid_to_new_filename_of body lookup base w))
        (False, snd (snd (rid_to_new_filename_of body lookup base w)))))"
  by (auto simp: process_resources_def split: prod.splits sum.splits)

section \<open>What copying leaves alone\<close>

text \<open>
  What exists before stays as it is: every path that exists in \<open>w\<close> exists in \<open>w'\<close>, and
  a file there has the same contents.
\<close>

definition keeps_existing :: "world \<Rightarrow> world \<Rightarrow> bool" where
  "keeps_existing w w' =
     (\<forall>p. os_path_exists w p \<longrightarrow> os_path_exists w' p \<and> files w' p = files w p)"

lemma keeps_existing_refl: "keeps_existing w w"
  by (simp add: keeps_existing_def)

lemma keeps_existing_trans:
  "keeps_existing w1 w2 \<Longrightarrow> keeps_existing w2 w3 \<Longrightarrow> keeps_existing w1 w3"
  by (simp add: keeps_existing_def)

lemma os_makedirs_frame:
  assumes "os_makedirs name w = (r, w')"
  shows "files w' = files w" "dirs w \<subseteq> dirs w'" "trace w' = trace w @ [MakeDirs name]"
  using assms by (auto simp: os_makedirs_def log_event_def Let_def split: if_splits)

lemma os_makedirs_keeps: "os_makedirs name w = (r, w') \<Longrightarrow> keeps_existing w w'"
  using os_makedirs_frame [of name w r w']
  by (auto simp: keeps_existing_def os_path_exists_def os_path_isdir_def)

lemma shutil_copyfile_frame:
  assumes "shutil_copyfile src dst w = (r, w')"
  shows "dirs w' = dirs w" "trace w' = trace w @ [CopyFile src dst]"
    "p \<noteq> dst \<Longrightarrow> files w' p = files w p"
  using assms
  by (auto simp: shutil_copyfile_def log_event_def Let_def split: if_splits option.splits)

lemma shutil_copyfile_keeps:
  assumes cp: "shutil_copyfile src dst w = (r, w')" and fresh: "\<not> os_path_exists w dst"
  shows "keeps_existing w w'"
  unfolding keeps_existing_def
proof (intro allI impI)
  fix p assume ex: "os_path_exists w p"
  then have "p \<noteq> dst" using fresh by auto
  then have f: "files w' p = files w p" by (rule shutil_copyfile_frame(3) [OF cp])
  have "dirs w' = dirs w" by (rule shutil_copyfile_frame(1) [OF cp])
  then have "os_path_exists w' p"
    using ex f by (simp add: os_path_exists_def os_path_isdir_def)
  with f show "os_path_exists w' p \<and> files w' p = files w p" by simp
qed

lemma copy_resource_frame:
  assumes "copy_resource e lookup assets (rid, new) (c, w) = (r, w')"
  shows "keeps_existing w w' \<and>
         (\<exists>evs. trace w' = trace w @ evs \<and>
            (\<forall>ev \<in> set evs. ev = MakeDirs assets \<or>
               (\<exists>res. lookup rid = Some res \<and>
                  ev = CopyFile (os_path_join (JOPLIN_RESOURCE_DIR e) res) (os_path_join assets new) \<and>
                  \<not> os_path_exists w (os_path_join assets new))))"
proof (cases "lookup rid")
  case None
  with assms show ?thesis by (simp add: copy_resource_def keeps_existing_refl)
next
  case (Some res)
  let ?src = "os_path_join (JOPLIN_RESOURCE_DIR e) res"
  let ?dst = "os_path_join assets new"
  show ?thesis
  proof (cases "os_path_exists w ?src \<and> \<not> os_path_exists w ?dst")
    case False
    with assms Some show ?thesis
      by (auto simp: copy_resource_def keeps_existing_refl)
  next
    case guard: True
    show ?thesis
    proof (cases "\<not> c \<and> \<not> os_path_exists w assets")
      case False
      obtain r2 w2 where cp: "shutil_copyfile ?src ?dst w = (r2, w2)" by force
      have "w' = w2"
        using assms Some guard False cp
        by (auto simp: copy_resource_def split: sum.splits)
      then show ?thesis
        using shutil_copyfile_keeps [OF cp] shutil_copyfile_frame(2) [OF cp] guard Some by simp
    next
      case True
      obtain r1 w1 where mk: "os_makedirs assets w = (r1, w1)" by force
      note k1 = os_makedirs_keeps [OF mk] and t1 = os_makedirs_frame(3) [OF mk]
      show ?thesis
      proof (cases r1)
        case (Inl err)
        then have "w' = w1"
          using assms Some guard True mk by (simp add: copy_resource_def)
        then show ?thesis using k1 t1 by simp
      next
        case (Inr u)
        obtain r2 w2 where cp: "shutil_copyfile ?src ?dst w1 = (r2, w2)" by force
        have w': "w' = w2"
          using assms Some guard True mk Inr cp
          by (auto simp: copy_resource_def split: sum.splits)
        have files1: "files w1 = files w" by (rule os_makedirs_frame(1) [OF mk])
        have k2: "keeps_existing w w2"
          unfolding keeps_existing_def
        proof (intro allI impI)
          fix p assume ex: "os_path_exists w p"
          then have ex1: "os_path_exists w1 p" using k1 by (simp add: keeps_existing_def)
          have "p \<noteq> ?dst" using ex guard by auto
          then have f: "files w2 p = files w p"
            using shutil_copyfile_frame(3) [OF cp] files1 by simp
          have "dirs w2 = dirs w1" by (rule shutil_copyfile_frame(1) [OF cp])
          then have "os_path_exists w2 p"
            using ex1 f files1 by (auto simp: os_path_exists_def os_path_isdir_def)
          with f show "os_path_exists w2 p \<and> files w2 p = files w p" by simp
        qed
        have "trace w2 = trace w @ [MakeDirs assets, CopyFile ?src ?dst]"
          using shutil_copyfile_frame(2) [OF cp] t1 by simp
        then show ?thesis using k2 w' guard Some by simp
      qed
    qed
  qed
qed

lemma copy_loop_frame:
  "copy_loop e lookup assets m (c, w) = (r, w') \<Longrightarrow>
   keeps_existing w w' \<and>
   (\<exists>evs. trace w' = trace w @ evs \<and>
      (\<forall>ev \<in> set evs. ev = MakeDirs assets \<or>
         (\<exists>rid new res. (rid, new) \<in> set m \<and> lookup rid = Some res \<and>
            ev = CopyFile (os_path_join (JOPLIN_RESOURCE_DIR e) res) (os_path_join assets new) \<and>
            \<not> os_path_exists w (os_path_join assets new))))"
proof (induction m arbitrary: c w)
  case Nil
  then show ?case by (auto simp: keeps_existing_refl)
next
  case (Cons item m)
  obtain rid new where item: "item = (rid, new)" by (cases item)
  obtain r1 w1 where step: "copy_resource e lookup assets (rid, new) (c, w) = (r1, w1)" by force
  from copy_resource_frame [OF step] obtain evs1 where
    k1: "keeps_existing w w1" and t1: "trace w1 = trace w @ evs1" and
    e1: "\<forall>ev \<in> set evs1. ev = MakeDirs assets \<or>
               (\<exists>res. lookup rid = Some res \<and>
                  ev = CopyFile (os_path_join (JOPLIN_RESOURCE_DIR e) res) (os_path_join assets new) \<and>
                  \<not> os_path_exists w (os_path_join assets new))"
    by blast
  show ?case
  proof (cases r1)
    case (Inl err)
    then have "w' = w1" using Cons.prems item step by simp
    then show ?thesis using k1 t1 e1 item by fastforce
  next
    case (Inr c1)
    then have rest: "copy_loop e lookup assets m (c1, w1) = (r, w')"
      using Cons.prems item step by simp
    from Cons.IH [OF rest] obtain evs2 where
      k2: "keeps_existing w1 w'" and t2: "trace w' = trace w1 @ evs2" and
      e2: "\<forall>ev \<in> set evs2. ev = MakeDirs assets \<or>
         (\<exists>rid new res. (rid, new) \<in> set m \<and> lookup rid = Some res \<and>
            ev = CopyFile (os_path_join (JOPLIN_RESOURCE_DIR e) res) (os_path_join assets new) \<and>
            \<not> os_path_exists w1 (os_path_join assets new))"
      by blast
    have mono: "\<not> os_path_exists w1 p \<Longrightarrow> \<not> os_path_exists w p" for p
      using k1 by (auto simp: keeps_existing_def)
    have "\<forall>ev \<in> set (evs1 @ evs2). ev = MakeDirs assets \<or>
         (\<exists>rid' new' res. (rid', new') \<in> set (item # m) \<and> lookup rid' = Some res \<and>
            ev = CopyFile (os_path_join (JOPLIN_RESOURCE_DIR e) res) (os_path_join assets new') \<and>
            \<not> os_path_exists w (os_path_join assets new'))"
    proof
      fix ev assume "ev \<in> set (evs1 @ evs2)"
      then consider "ev \<in> set evs1" | "ev \<in> set evs2" by auto
      then show "ev = MakeDirs assets \<or>
         (\<exists>rid' new' res. (rid', new') \<in> set (item # m) \<and> lookup rid' = Some res \<and>
            ev = CopyFile (os_path_join (JOPLIN_RESOURCE_DIR e) res) (os_path_join assets new') \<and>
            \<not> os_path_exists w (os_path_join assets new'))"
      proof cases
        case 1
        with e1 item show ?thesis by fastforce
      next
        case 2
        with e2 mono show ?thesis by fastforce
      qed
    qed
    moreover have "trace w' = trace w @ evs1 @ evs2" using t1 t2 by simp
    moreover have "keeps_existing w w'" using k1 k2 by (rule keeps_existing_trans)
    ultimately show ?thesis by blast
  qed
qed

lemma assign_loop_world:
  "assign_loop lookup base rids (m, n, w) = (m', n', w') \<Longrightarrow>
   files w' = files w \<and> dirs w' = dirs w \<and>
   (\<exists>evs. trace w' = trace w @ evs \<and> (\<forall>ev \<in> set evs. \<exists>rid. ev = ResourceNotFound rid))"
proof (induction rids arbitrary: m n w)
  case Nil
  then show ?case by simp
next
  case (Cons rid rids)
  show ?case
  proof (cases "lookup rid")
    case None
    with Cons.prems have
      "assign_loop lookup base rids (m, n, log_event (ResourceNotFound rid) w) = (m', n', w')"
      by simp
    from Cons.IH [OF this] show ?thesis
      by (fastforce simp: log_event_def)
  next
    case (Some res)
    with Cons.prems Cons.IH show ?thesis
      by (auto simp: Let_def split: if_splits)
  qed
qed

lemma assign_loop_warnings:
  "assign_loop lookup base rids (m, n, w) = (m', n', w') \<Longrightarrow>
   \<exists>evs. trace w' = trace w @ evs \<and>
      (\<forall>ev \<in> set evs. \<exists>rid. ev = ResourceNotFound rid \<and> lookup rid = None)"
proof (induction rids arbitrary: m n w)
  case Nil
  then show ?case by simp
next
  case (Cons rid rids)
  show ?case
  proof (cases "lookup rid")
    case None
    with Cons.prems have
      "assign_loop lookup base rids (m, n, log_event (ResourceNotFound rid) w) = (m', n', w')"
      by simp
    from Cons.IH [OF this] None show ?thesis
      by (fastforce simp: log_event_def)
  next
    case (Some res)
    with Cons.prems Cons.IH show ?thesis
      by (auto simp: Let_def split: if_splits)
  qed
qed

lemma process_resources_world:
  assumes "rid_to_new_filename_of body lookup base w = (m, n, w1)"
  shows "snd (process_resources e body lookup base assets w) =
         snd (copy_loop e lookup assets m (False, w1))"
  using assms by (auto simp: process_resources_def split: prod.splits sum.splits)

text \<open>
  Claim C8. Whatever \<^verbatim>\<open>process_resources\<close> is called with and however it ends, every
  path that exists before the call still exists after it and a file there has the
  contents it had; and every copy the call makes goes to a destination that did not
  exist before the call. So an asset that is already there (after an earlier run, say)
  is neither overwritten nor copied again.
\<close>

theorem process_resources_keeps_existing:
  assumes "process_resources e body lookup base assets w = (r, w')"
  shows "(\<forall>p. os_path_exists w p \<longrightarrow> os_path_exists w' p \<and> files w' p = files w p) \<and>
         (\<exists>evs. trace w' = trace w @ evs \<and>
            (\<forall>src dst. CopyFile src dst \<in> set evs \<longrightarrow> \<not> os_path_exists w dst))"
proof -
  obtain m n w1 where a: "rid_to_new_filename_of body lookup base w = (m, n, w1)"
    by (cases "rid_to_new_filename_of body lookup base w") auto
  obtain r2 w2 where c: "copy_loop e lookup assets m (False, w1) = (r2, w2)" by force
  have w': "w' = w2"
    using process_resources_world [OF a, of e assets] assms c by simp
  from a have "assign_loop lookup base (unique_rids_loop (re_findall body) {} []) ([], 0, w) = (m, n, w1)"
    by (simp add: rid_to_new_filename_of_def)
  from assign_loop_world [OF this] obtain evs1 where
    f1: "files w1 = files w" and d1: "dirs w1 = dirs w" and t1: "trace w1 = trace w @ evs1" and
    e1: "\<forall>ev \<in> set evs1. \<exists>rid. ev = ResourceNotFound rid"
    by blast
  have same: "os_path_exists w1 p = os_path_exists w p" for p
    using f1 d1 by (simp add: os_path_exists_def os_path_isdir_def)
  from copy_loop_frame [OF c] obtain evs2 where
    k: "keeps_existing w1 w2" and t2: "trace w2 = trace w1 @ evs2" and
    e2: "\<forall>ev \<in> set evs2. ev = MakeDirs assets \<or>
         (\<exists>rid new res. (rid, new) \<in> set m \<and> lookup rid = Some res \<and>
            ev = CopyFile (os_path_join (JOPLIN_RESOURCE_DIR e) res) (os_path_join assets new) \<and>
            \<not> os_path_exists w1 (os_path_join assets new))"
    by blast
  have 1: "\<forall>p. os_path_exists w p \<longrightarrow> os_path_exists w' p \<and> files w' p = files w p"
    using k same f1 w' by (simp add: keeps_existing_def)
  have 2: "trace w' = trace w @ (evs1 @ evs2)" using t1 t2 w' by simp
  have 3: "\<forall>src dst. CopyFile src dst \<in> set (evs1 @ evs2) \<longrightarrow> \<not> os_path_exists w dst"
  proof (intro allI impI)
    fix src dst assume "CopyFile src dst \<in> set (evs1 @ evs2)"
    then have "CopyFile src dst \<in> set evs2" using e1 by auto
    with e2 show "\<not> os_path_exists w dst" using same by fastforce
  qed
  from 1 2 3 show ?thesis by blast
qed

theorem process_resources_keeps_existing_witness:
  "files (snd (process_resources example_env (ref_text rid_a) example_lookup ''Trip''
                 ''/v/assets'' example_world)) ''/v/assets/Trip-001.png'' = Some ''old image''"
proof -
  have ex: "os_path_exists example_world ''/v/assets/Trip-001.png''"
    by (simp add: os_path_exists_def example_world_def)
  have f: "files example_world ''/v/assets/Trip-001.png'' = Some ''old image''"
    by (simp add: example_world_def)
  from process_resources_keeps_existing
    [of example_env "ref_text rid_a" example_lookup "''Trip''" "''/v/assets''" example_world
       "fst (process_resources example_env (ref_text rid_a) example_lookup ''Trip''
                 ''/v/assets'' example_world)"
       "snd (process_resources example_env (ref_text rid_a) example_lookup ''Trip''
                 ''/v/assets'' example_world)"]
  show ?thesis using ex f by simp
qed

text \<open>
  Claim C5. A reference in the body whose identifier is not in the index gets no new
  filename, its text is left as it is by the rewriting of the links (the text before and
  after it is rewritten on its own), and every copy the call makes is the copy of the
  file of another identifier, one that is in the index.
\<close>

theorem process_resources_missing_from_index:
  assumes hex: "hex32 rid" and none: "lookup rid = None"
    and body: "body = pre @ ref_text rid @ post"
    and m: "m = fst (rid_to_new_filename_of body lookup base w)"
    and w': "w' = snd (process_resources e body lookup base assets w)"
  shows "map_of m rid = None \<and>
         re_sub (replace_resource m) body =
           re_sub (replace_resource m) pre @ ref_text rid @ re_sub (replace_resource m) post \<and>
         (\<exists>evs. trace w' = trace w @ evs \<and>
            (\<forall>src dst. CopyFile src dst \<in> set evs \<longrightarrow>
               (\<exists>rid' new res. rid' \<noteq> rid \<and> (rid', new) \<in> set m \<and> lookup rid' = Some res \<and>
                  src = os_path_join (JOPLIN_RESOURCE_DIR e) res \<and> dst = os_path_join assets new)))"
proof -
  have "rid \<notin> dom (map_of m)"
    unfolding m rid_to_new_filename_dom using none by simp
  then have 1: "map_of m rid = None" by auto
  have 2: "re_sub (replace_resource m) body =
           re_sub (replace_resource m) pre @ ref_text rid @ re_sub (replace_resource m) post"
    by (simp add: body re_sub_ref [OF hex] replace_resource_def 1)
  obtain n w1 where a: "rid_to_new_filename_of body lookup base w = (m, n, w1)"
    using m by (cases "rid_to_new_filename_of body lookup base w") auto
  obtain r2 w2 where c: "copy_loop e lookup assets m (False, w1) = (r2, w2)" by force
  have w2: "w' = w2"
    using process_resources_world [OF a, of e assets] w' c by simp
  from a have "assign_loop lookup base (unique_rids_loop (re_findall body) {} []) ([], 0, w) = (m, n, w1)"
    by (simp add: rid_to_new_filename_of_def)
  from assign_loop_world [OF this] obtain evs1 where
    t1: "trace w1 = trace w @ evs1" and
    e1: "\<forall>ev \<in> set evs1. \<exists>rid. ev = ResourceNotFound rid"
    by blast
  from copy_loop_frame [OF c] obtain evs2 where
    t2: "trace w2 = trace w1 @ evs2" and
    e2: "\<forall>ev \<in> set evs2. ev = MakeDirs assets \<or>
         (\<exists>rid new res. (rid, new) \<in> set m \<and> lookup rid = Some res \<and>
            ev = CopyFile (os_path_join (JOPLIN_RESOURCE_DIR e) res) (os_path_join assets new) \<and>
            \<not> os_path_exists w1 (os_path_join assets new))"
    by blast
  have 3: "trace w' = trace w @ (evs1 @ evs2)" using t1 t2 w2 by simp
  have 4: "\<forall>src dst. CopyFile src dst \<in> set (evs1 @ evs2) \<longrightarrow>
               (\<exists>rid' new res. rid' \<noteq> rid \<and> (rid', new) \<in> set m \<and> lookup rid' = Some res \<and>
                  src = os_path_join (JOPLIN_RESOURCE_DIR e) res \<and> dst = os_path_join assets new)"
  proof (intro allI impI)
    fix src dst assume "CopyFile src dst \<in> set (evs1 @ evs2)"
    then have "CopyFile src dst \<in> set evs2" using e1 by auto
    with e2 obtain rid' new res where
      "(rid', new) \<in> set m" "lookup rid' = Some res"
      "src = os_path_join (JOPLIN_RESOURCE_DIR e) res" "dst = os_path_join assets new"
      by fastforce
    moreover from this none have "rid' \<noteq> rid" by auto
    ultimately show "\<exists>rid' new res. rid' \<noteq> rid \<and> (rid', new) \<in> set m \<and> lookup rid' = Some res \<and>
                  src = os_path_join (JOPLIN_RESOURCE_DIR e) res \<and> dst = os_path_join assets new"
      by blast
  qed
  from 1 2 3 4 show ?thesis by blast
qed

theorem process_resources_missing_from_index_witness:
  "map_of (fst (rid_to_new_filename_of (''a '' @ ref_text rid_d @ '' b'') example_lookup ''Trip''
             empty_world)) rid_d = None \<and>
   re_sub (replace_resource (fst (rid_to_new_filename_of (''a '' @ ref_text rid_d @ '' b'')
             example_lookup ''Trip'' empty_world))) (''a '' @ ref_text rid_d @ '' b'') =
     ''a '' @ ref_text rid_d @ '' b''"
proof -
  from process_resources_missing_from_index
    [where rid = rid_d and lookup = example_lookup and pre = "''a ''" and post = "'' b''"
       and base = "''Trip''" and w = empty_world and e = example_env and assets = "''/v/assets''",
     OF hex32_examples(4) example_lookup_simps(4) refl refl refl]
  show ?thesis by (simp add: match_ref_def ref_pattern_def)
qed

section \<open>A note with an empty body\<close>



lemma made_dirs_self: "name \<in> set (made_dirs name)" "os_path_normpath name \<in> set (made_dirs name)"
  by (simp_all add: made_dirs_def path_prefixes_def)

lemma made_dirs_normal: "normal_path p \<Longrightarrow> set (made_dirs p) = set (path_prefixes p)"
  by (simp add: made_dirs_def normal_path_def)

lemma os_makedirs_ok:
  assumes "os_makedirs name w = (r, w')"
  shows "dirs w' \<subseteq> dirs w \<union> set (made_dirs name)"
    "\<forall>q \<in> set (made_dirs name). files w q = None \<Longrightarrow>
       r = Inr () \<and> dirs w' = dirs w \<union> set (made_dirs name)"
proof -
  show "dirs w' \<subseteq> dirs w \<union> set (made_dirs name)"
    using assms by (auto simp: os_makedirs_def log_event_def Let_def split: if_splits)
  assume "\<forall>q \<in> set (made_dirs name). files w q = None"
  then show "r = Inr () \<and> dirs w' = dirs w \<union> set (made_dirs name)"
    using assms made_dirs_self [of name]
    by (auto simp: os_makedirs_def log_event_def Let_def list_ex_iff split: if_splits)
qed

lemma os_path_dirname_join:
  assumes "d \<noteq> []" "last d \<noteq> CHR ''/''" "CHR ''/'' \<notin> set name"
  shows "os_path_dirname (os_path_join d name) = d"
proof -
  have j: "os_path_join d name = d @ ''/'' @ name"
    using assms by (cases name) (auto simp: os_path_join_def)
  have dw: "dropWhile (\<lambda>c. c \<noteq> CHR ''/'') (rev name @ CHR ''/'' # rev d) = CHR ''/'' # rev d"
    using assms(3) by (auto simp: dropWhile_append3)
  have "hd (rev d) \<noteq> CHR ''/''" using assms(1,2) by (simp add: hd_rev)
  then have dw2: "dropWhile (\<lambda>c. c = CHR ''/'') (rev d) = rev d"
    using assms(1) by (cases "rev d") auto
  have "last d \<in> set d" using assms(1) by simp
  then have "\<not> list_all (\<lambda>c. c = CHR ''/'') d"
    using assms(2) unfolding list_all_iff by blast
  then have nr: "\<not> is_root (d @ ''/'')"
    by (simp add: is_root_def)
  show ?thesis
    using dw dw2 nr by (simp add: os_path_dirname_def j Let_def)
qed


lemma path_prefixes_prefix: "q \<in> set (path_prefixes p) \<Longrightarrow> prefix q p"
  by (auto simp: path_prefixes_def take_is_prefix)




lemma dotdot_hierarchy_resolved:
  "map_option (map_sum id (\<lambda>(h, r). (map h [''r'', ''d'', ''a''], r)))
     (get_folder_hierarchy 3 dotdot_folders ''joplin'') =
   Some (Inr (map dotdot_hierarchy [''r'', ''d'', ''a''], ''r''))"
  by code_simp




section \<open>When the copies succeed\<close>

text \<open>
  Under \<open>can_copy\<close> every step of the copy loop returns without an error, and the
  condition holds again afterwards: a step adds at most the assets directory with its
  ancestors and the file at its destination.
\<close>

lemma can_copy_same_files:
  "files w' = files w \<Longrightarrow> dirs w' = dirs w \<Longrightarrow>
   can_copy e lookup assets m w' = can_copy e lookup assets m w"
  by (simp add: can_copy_def os_path_isdir_def cong: option.case_cong)

lemma os_path_join_plain:
  "a \<noteq> [] \<Longrightarrow> last a \<noteq> CHR ''/'' \<Longrightarrow> CHR ''/'' \<notin> set b \<Longrightarrow>
   os_path_join a b = a @ ''/'' @ b"
  by (cases b) (auto simp: os_path_join_def)

lemma joined_not_prefix:
  assumes "a \<noteq> []" "last a \<noteq> CHR ''/''" "CHR ''/'' \<notin> set b"
  shows "os_path_join a b \<notin> set (path_prefixes a)"
proof
  assume "os_path_join a b \<in> set (path_prefixes a)"
  then have "prefix (os_path_join a b) a" by (rule path_prefixes_prefix)
  then have "length (os_path_join a b) \<le> length a" by (rule prefix_length_le)
  then show False using os_path_join_plain [OF assms] by simp
qed

lemma copy_resource_returns:
  assumes can: "can_copy e lookup assets ((rid, new) # rest) w"
    and flag: "c \<longrightarrow> os_path_isdir w assets"
  shows "\<exists>c' w'. copy_resource e lookup assets (rid, new) (c, w) = (Inr c', w') \<and>
           can_copy e lookup assets rest w' \<and> (c' \<longrightarrow> os_path_isdir w' assets) \<and>
           (\<forall>p. p \<noteq> os_path_join assets new \<longrightarrow> files w' p = files w p) \<and>
           dirs w' \<subseteq> dirs w \<union> set (path_prefixes assets) \<and>
           (\<exists>evs. trace w' = trace w @ evs \<and>
              (\<forall>ev \<in> set evs. ev = MakeDirs assets \<or>
                 (\<exists>s d. ev = CopyFile s d \<and> os_path_exists w s)))"
proof -
  let ?P = "set (path_prefixes assets)"
  from can have ad: "assets \<noteq> []" "last assets \<noteq> CHR ''/''" and normal: "normal_path assets"
    and free: "\<forall>q \<in> ?P. files w q = None" and noslash: "CHR ''/'' \<notin> set new"
    and rest: "can_copy e lookup assets rest w"
    by (auto simp: can_copy_def list_all_iff)
  from can obtain res where res: "lookup rid = Some res"
    and srcdir: "\<not> os_path_isdir w (os_path_join (JOPLIN_RESOURCE_DIR e) res)"
    by (auto simp: can_copy_def split: option.splits)
  let ?src = "os_path_join (JOPLIN_RESOURCE_DIR e) res"
  let ?dst = "os_path_join assets new"
  have self: "assets \<in> ?P" by (simp add: path_prefixes_def)
  have dstP: "?dst \<notin> ?P" by (rule joined_not_prefix [OF ad noslash])
  have dn: "os_path_dirname ?dst = assets" by (rule os_path_dirname_join [OF ad noslash])
  \<comment> \<open>a world with the same files, more directories among the ancestors, and one new file\<close>
  have keep: "can_copy e lookup assets rest w2"
    if f: "\<forall>p. p \<noteq> ?dst \<longrightarrow> files w2 p = files w p" and d: "dirs w2 \<subseteq> dirs w \<union> ?P" for w2
  proof -
    have "files w2 q = None" if "q \<in> ?P" for q
    proof -
      from that dstP have "q \<noteq> ?dst" by blast
      with f have "files w2 q = files w q" by blast
      with free that show ?thesis by simp
    qed
    moreover have "\<not> os_path_isdir w2 p" if "\<not> os_path_isdir w p" "p \<notin> ?P" for p
      using that d by (auto simp: os_path_isdir_def)
    ultimately show ?thesis
      using rest unfolding can_copy_def list_all_iff
      by (auto split: option.splits)
  qed
  show ?thesis
  proof (cases "os_path_exists w ?src \<and> \<not> os_path_exists w ?dst")
    case False
    then have "copy_resource e lookup assets (rid, new) (c, w) = (Inr c, w)"
      using res by (auto simp: copy_resource_def Let_def)
    with rest flag show ?thesis by simp
  next
    case guard: True
    then obtain data where data: "files w ?src = Some data"
      using srcdir by (auto simp: os_path_exists_def)
    have dstfree: "files w ?dst = None" "\<not> os_path_isdir w ?dst"
      using guard by (auto simp: os_path_exists_def)
    show ?thesis
    proof (cases "\<not> c \<and> \<not> os_path_exists w assets")
      case True
      obtain r1 w1 where mk: "os_makedirs assets w = (r1, w1)" by force
      have "\<forall>q \<in> set (made_dirs assets). files w q = None"
        using free made_dirs_normal [OF normal] by simp
      from os_makedirs_ok(2) [OF mk this] have r1: "r1 = Inr ()"
        and d1: "dirs w1 = dirs w \<union> ?P"
        using made_dirs_normal [OF normal] by simp_all
      have f1: "files w1 = files w" by (rule os_makedirs_frame(1) [OF mk])
      have nd: "\<not> os_path_isdir w1 ?dst"
        using dstfree(2) d1 dstP by (auto simp: os_path_isdir_def)
      have pu: "parent_usable w1 ?dst"
        using d1 self by (simp add: parent_usable_def dn os_path_isdir_def)
      let ?w2 = "(log_event (CopyFile ?src ?dst) w1)
                   \<lparr>files := (files (log_event (CopyFile ?src ?dst) w1))(?dst \<mapsto> data)\<rparr>"
      have cp: "shutil_copyfile ?src ?dst w1 = (Inr (), ?w2)"
        using data f1 nd pu
        by (simp add: shutil_copyfile_def Let_def log_event_def os_path_isdir_def parent_usable_def)
      have step: "copy_resource e lookup assets (rid, new) (c, w) = (Inr True, ?w2)"
        using res guard True mk r1 cp by (simp add: copy_resource_def Let_def)
      have "can_copy e lookup assets rest ?w2"
        by (rule keep) (auto simp: log_event_def f1 d1)
      moreover have "os_path_isdir ?w2 assets"
        using d1 self by (simp add: os_path_isdir_def log_event_def)
      moreover have "\<forall>p. p \<noteq> ?dst \<longrightarrow> files ?w2 p = files w p"
        by (simp add: log_event_def f1)
      moreover have "dirs ?w2 \<subseteq> dirs w \<union> ?P"
        by (simp add: log_event_def d1)
      moreover have "trace ?w2 = trace w @ [MakeDirs assets, CopyFile ?src ?dst]"
        using os_makedirs_frame(3) [OF mk] by (simp add: log_event_def)
      moreover have "os_path_exists w ?src" using guard by simp
      ultimately show ?thesis using step by (intro exI [of _ True] exI [of _ ?w2]) simp
    next
      case False
      have isdir: "os_path_isdir w assets"
      proof (cases c)
        case True
        then show ?thesis using flag by simp
      next
        case False
        with \<open>\<not> (\<not> c \<and> \<not> os_path_exists w assets)\<close> have "os_path_exists w assets" by simp
        then show ?thesis using free self by (auto simp: os_path_exists_def)
      qed
      have pu: "parent_usable w ?dst"
        using isdir by (simp add: parent_usable_def dn)
      let ?w2 = "(log_event (CopyFile ?src ?dst) w)
                   \<lparr>files := (files (log_event (CopyFile ?src ?dst) w))(?dst \<mapsto> data)\<rparr>"
      have cp: "shutil_copyfile ?src ?dst w = (Inr (), ?w2)"
        using data dstfree(2) pu
        by (simp add: shutil_copyfile_def Let_def log_event_def os_path_isdir_def parent_usable_def)
      have step: "copy_resource e lookup assets (rid, new) (c, w) = (Inr c, ?w2)"
        using res guard False cp by (auto simp: copy_resource_def Let_def)
      have "can_copy e lookup assets rest ?w2"
        by (rule keep) (auto simp: log_event_def)
      moreover have "os_path_isdir ?w2 assets"
        using isdir by (simp add: os_path_isdir_def log_event_def)
      moreover have "\<forall>p. p \<noteq> ?dst \<longrightarrow> files ?w2 p = files w p"
        by (simp add: log_event_def)
      moreover have "dirs ?w2 \<subseteq> dirs w \<union> ?P"
        by (simp add: log_event_def)
      moreover have "trace ?w2 = trace w @ [CopyFile ?src ?dst]"
        by (simp add: log_event_def)
      moreover have "os_path_exists w ?src" using guard by simp
      ultimately show ?thesis using step by (intro exI [of _ c] exI [of _ ?w2]) simp
    qed
  qed
qed

text \<open>
  A path that does not exist, is not below the assets directory and is none of its
  ancestors is not made by the loop, and nothing is copied from it.
\<close>

lemma copy_loop_missing:
  assumes "can_copy e lookup assets m w" "c \<longrightarrow> os_path_isdir w assets"
    and "\<not> os_path_exists w p" "\<not> prefix assets p" "p \<notin> set (path_prefixes assets)"
  shows "\<exists>c' w'. copy_loop e lookup assets m (c, w) = (Inr c', w') \<and>
           \<not> os_path_exists w' p \<and>
           (\<exists>evs. trace w' = trace w @ evs \<and>
              (\<forall>ev \<in> set evs. ev = MakeDirs assets \<or> (\<exists>s d. ev = CopyFile s d \<and> s \<noteq> p)))"
  using assms
proof (induction m arbitrary: c w)
  case Nil
  then show ?case by simp
next
  case (Cons item m)
  obtain rid new where item: "item = (rid, new)" by (cases item)
  from Cons.prems(1) have ad: "assets \<noteq> []" "last assets \<noteq> CHR ''/''"
    and noslash: "CHR ''/'' \<notin> set new"
    by (auto simp: can_copy_def item)
  have "prefix assets (os_path_join assets new)"
    by (simp add: os_path_join_plain [OF ad noslash])
  with Cons.prems(4) have pdst: "p \<noteq> os_path_join assets new" by auto
  from copy_resource_returns [OF Cons.prems(1) [unfolded item] Cons.prems(2)]
  obtain c1 w1 evs1 where step: "copy_resource e lookup assets (rid, new) (c, w) = (Inr c1, w1)"
    and can1: "can_copy e lookup assets m w1" and flag1: "c1 \<longrightarrow> os_path_isdir w1 assets"
    and f1: "\<forall>q. q \<noteq> os_path_join assets new \<longrightarrow> files w1 q = files w q"
    and d1: "dirs w1 \<subseteq> dirs w \<union> set (path_prefixes assets)"
    and t1: "trace w1 = trace w @ evs1"
    and e1: "\<forall>ev \<in> set evs1. ev = MakeDirs assets \<or> (\<exists>s d. ev = CopyFile s d \<and> os_path_exists w s)"
    by blast
  have miss1: "\<not> os_path_exists w1 p"
    using Cons.prems(3,5) f1 d1 pdst by (auto simp: os_path_exists_def os_path_isdir_def)
  from Cons.IH [OF can1 flag1 miss1 Cons.prems(4,5)]
  obtain c2 w2 evs2 where rest: "copy_loop e lookup assets m (c1, w1) = (Inr c2, w2)"
    and miss2: "\<not> os_path_exists w2 p" and t2: "trace w2 = trace w1 @ evs2"
    and e2: "\<forall>ev \<in> set evs2. ev = MakeDirs assets \<or> (\<exists>s d. ev = CopyFile s d \<and> s \<noteq> p)"
    by blast
  have e1': "\<forall>ev \<in> set evs1. ev = MakeDirs assets \<or> (\<exists>s d. ev = CopyFile s d \<and> s \<noteq> p)"
    using e1 Cons.prems(3) by fastforce
  have "copy_loop e lookup assets (item # m) (c, w) = (Inr c2, w2)"
    using step rest by (simp add: item)
  moreover have "trace w2 = trace w @ (evs1 @ evs2)" using t1 t2 by simp
  moreover have "\<forall>ev \<in> set (evs1 @ evs2). ev = MakeDirs assets \<or> (\<exists>s d. ev = CopyFile s d \<and> s \<noteq> p)"
    using e1' e2 by auto
  ultimately show ?case using miss2 by blast
qed

lemma copy_loop_returns:
  "can_copy e lookup assets m w \<Longrightarrow> (c \<longrightarrow> os_path_isdir w assets) \<Longrightarrow>
   \<exists>c' w'. copy_loop e lookup assets m (c, w) = (Inr c', w')"
proof (induction m arbitrary: c w)
  case Nil
  then show ?case by simp
next
  case (Cons item m)
  obtain rid new where item: "item = (rid, new)" by (cases item)
  from copy_resource_returns [OF Cons.prems(1) [unfolded item] Cons.prems(2)]
  obtain c1 w1 where step: "copy_resource e lookup assets (rid, new) (c, w) = (Inr c1, w1)"
    and can1: "can_copy e lookup assets m w1" and flag1: "c1 \<longrightarrow> os_path_isdir w1 assets"
    by blast
  from Cons.IH [OF can1 flag1] show ?case
    using step by (simp add: item)
qed

section \<open>Bodies as gaps and references\<close>

lemma re_findall_body_of:
  "list_all (\<lambda>(gap, rid). re_findall gap = [] \<and> hex32 rid) segs \<Longrightarrow>
   re_findall (body_of segs rest) = map snd segs @ re_findall rest"
proof (induction segs)
  case Nil
  then show ?case by (simp add: body_of_def)
next
  case (Cons seg segs)
  obtain gap rid where seg: "seg = (gap, rid)" by (cases seg)
  from Cons.prems have gap: "re_findall gap = []" and hex: "hex32 rid"
    and tl: "list_all (\<lambda>(gap, rid). re_findall gap = [] \<and> hex32 rid) segs"
    by (simp_all add: seg)
  have "body_of (seg # segs) rest = gap @ ref_text rid @ body_of segs rest"
    by (simp add: body_of_def seg)
  then show ?case
    using Cons.IH [OF tl] by (simp add: re_findall_ref [OF hex] gap seg)
qed

lemma re_sub_body_of:
  "list_all (\<lambda>(gap, rid). re_findall gap = [] \<and> hex32 rid) segs \<Longrightarrow>
   re_sub repl (body_of segs rest) =
     concat (map (\<lambda>(gap, rid). gap @ repl (ref_text rid, rid)) segs) @ re_sub repl rest"
proof (induction segs)
  case Nil
  then show ?case by (simp add: body_of_def)
next
  case (Cons seg segs)
  obtain gap rid where seg: "seg = (gap, rid)" by (cases seg)
  from Cons.prems have gap: "re_findall gap = []" and hex: "hex32 rid"
    and tl: "list_all (\<lambda>(gap, rid). re_findall gap = [] \<and> hex32 rid) segs"
    by (simp_all add: seg)
  have "body_of (seg # segs) rest = gap @ ref_text rid @ body_of segs rest"
    by (simp add: body_of_def seg)
  then show ?case
    using Cons.IH [OF tl] by (simp add: re_sub_ref [OF hex] re_sub_no_refs [OF gap] seg)
qed

lemma re_sub_links_rewritten:
  assumes "list_all (\<lambda>(gap, rid). re_findall gap = [] \<and> hex32 rid) segs" "re_findall rest = []"
  shows "re_sub (replace_resource m) (body_of segs rest) = links_rewritten (map_of m) segs rest"
proof -
  have "(\<lambda>(gap, rid). gap @ replace_resource m (ref_text rid, rid)) =
        (\<lambda>(gap, rid). gap @ (case map_of m rid of
                       Some new_filename \<Rightarrow> ''![]('' @ new_filename @ '')''
                     | None \<Rightarrow> ref_text rid))"
    by (simp add: replace_resource_def fun_eq_iff)
  then show ?thesis
    by (simp add: re_sub_body_of [OF assms(1)] re_sub_no_refs [OF assms(2)] links_rewritten_def)
qed

lemma match_prefix_literal_elim:
  "match_prefix (map (\<lambda>p c. c = p) xs @ qs) s \<Longrightarrow> \<exists>t. s = xs @ t \<and> match_prefix qs t"
proof (induction xs arbitrary: s)
  case Nil
  then show ?case by simp
next
  case (Cons x xs)
  then show ?case by (cases s) auto
qed

lemma match_prefix_replicate_elim:
  "match_prefix (replicate n P @ qs) s \<Longrightarrow>
   \<exists>h t. s = h @ t \<and> length h = n \<and> list_all P h \<and> match_prefix qs t"
proof (induction n arbitrary: s)
  case 0
  then show ?case by simp
next
  case (Suc n)
  then obtain c cs where s: "s = c # cs" and c: "P c"
    and m: "match_prefix (replicate n P @ qs) cs"
    by (cases s) auto
  from Suc.IH [OF m] obtain h t where "cs = h @ t" "length h = n" "list_all P h"
    "match_prefix qs t" by blast
  then show ?case
    using s c by (intro exI [of _ "c # h"] exI [of _ t]) simp
qed

lemma match_ref_group:
  assumes "match_ref s = Some (group0, rid)"
  shows "hex32 rid \<and> group0 = ref_text rid \<and> s = ref_text rid @ drop 39 s"
proof -
  from assms have mp: "match_prefix ref_pattern s"
    and g: "group0 = take 39 s" "rid = take 32 (drop 6 s)"
    by (auto simp: match_ref_def split: if_splits)
  from mp obtain t where t: "s = ''![](:/'' @ t"
    and m1: "match_prefix (replicate 32 hex_char @ [\<lambda>c. c = CHR '')'']) t"
    unfolding ref_pattern_def using match_prefix_literal_elim by blast
  from match_prefix_replicate_elim [OF m1] obtain h u where u: "t = h @ u"
    and h: "length h = 32" "list_all hex_char h"
    and m2: "match_prefix [\<lambda>c. c = CHR '')''] u"
    by blast
  from m2 obtain v where v: "u = CHR '')'' # v" by (cases u) auto
  have s: "s = ''![](:/'' @ h @ CHR '')'' # v" by (simp add: t u v)
  have rid: "rid = h" using g(2) h(1) by (simp add: s)
  have "group0 = ref_text h" using g(1) h(1) by (simp add: s ref_text_def)
  moreover have "drop 39 s = v" using h(1) by (simp add: s)
  ultimately show ?thesis
    using h rid s by (simp add: hex32_def ref_text_def)
qed

lemma match_prefix_extend: "match_prefix ps s \<Longrightarrow> match_prefix ps (s @ t)"
  by (induction ps s rule: match_prefix.induct) auto

lemma match_ref_None_prefix: "match_ref (s @ t) = None \<Longrightarrow> match_ref s = None"
  using match_prefix_extend [of ref_pattern s t]
  by (auto simp: match_ref_def split: if_splits)

text \<open>
  A text holds no reference exactly if \<^verbatim>\<open>re.findall\<close> finds none in it, and every body
  is made of references and of texts without a reference.
\<close>

lemma re_findall_empty_iff:
  "re_findall t = [] \<longleftrightarrow> \<not> (\<exists>pre rid post. hex32 rid \<and> t = pre @ ref_text rid @ post)"
proof
  assume "re_findall t = []"
  then show "\<not> (\<exists>pre rid post. hex32 rid \<and> t = pre @ ref_text rid @ post)"
    by (auto simp: re_findall_ref)
next
  have "\<exists>pre rid post. hex32 rid \<and> t = pre @ ref_text rid @ post" if "re_findall t \<noteq> []"
    using that
  proof (induction t rule: re_findall.induct)
    case 1
    then show ?case by simp
  next
    case (2 c cs)
    show ?case
    proof (cases "match_ref (c # cs)")
      case None
      with 2 obtain pre rid post where "hex32 rid" "cs = pre @ ref_text rid @ post"
        by auto
      then have "hex32 rid \<and> c # cs = (c # pre) @ ref_text rid @ post" by simp
      then show ?thesis by blast
    next
      case (Some a)
      obtain g0 g1 where a: "a = (g0, g1)" by (cases a)
      from match_ref_group [OF Some [unfolded a]]
      have "hex32 g1" "c # cs = ref_text g1 @ drop 39 (c # cs)" by blast+
      then have "hex32 g1 \<and> c # cs = [] @ ref_text g1 @ drop 39 (c # cs)"
        by (simp only: append_Nil simp_thms)
      then show ?thesis by blast
    qed
  qed
  then show "\<not> (\<exists>pre rid post. hex32 rid \<and> t = pre @ ref_text rid @ post) \<Longrightarrow> re_findall t = []"
    by blast
qed

lemma body_of_exists:
  "\<exists>segs rest. body = body_of segs rest \<and>
     list_all (\<lambda>(gap, rid). re_findall gap = [] \<and> hex32 rid) segs \<and> re_findall rest = []"
proof (induction body rule: re_findall.induct)
  case 1
  have "[] = body_of [] [] \<and> list_all (\<lambda>(gap, rid). re_findall gap = [] \<and> hex32 rid) [] \<and>
        re_findall [] = []"
    by (simp add: body_of_def)
  then show ?case by blast
next
  case (2 c cs)
  show ?case
  proof (cases "match_ref (c # cs)")
    case (Some a)
    obtain g0 g1 where a: "a = (g0, g1)" by (cases a)
    from match_ref_group [OF Some [unfolded a]]
    have hex: "hex32 g1" and s: "c # cs = ref_text g1 @ drop 39 (c # cs)" by blast+
    from 2(2) [OF Some a [symmetric]] obtain segs rest where
      d: "drop 39 (c # cs) = body_of segs rest"
      and p: "list_all (\<lambda>(gap, rid). re_findall gap = [] \<and> hex32 rid) segs" "re_findall rest = []"
      by blast
    have "body_of (([], g1) # segs) rest = ref_text g1 @ body_of segs rest"
      by (simp add: body_of_def)
    with s d have "c # cs = body_of (([], g1) # segs) rest"
      by (simp only:)
    moreover have "list_all (\<lambda>(gap, rid). re_findall gap = [] \<and> hex32 rid) (([], g1) # segs)"
      using p(1) hex by simp
    ultimately show ?thesis using p(2) by blast
  next
    case None
    from 2(1) [OF None] obtain segs rest where
      d: "cs = body_of segs rest"
      and p: "list_all (\<lambda>(gap, rid). re_findall gap = [] \<and> hex32 rid) segs" "re_findall rest = []"
      by blast
    show ?thesis
    proof (cases segs)
      case Nil
      then have "c # cs = body_of [] (c # rest)" using d by (simp add: body_of_def)
      moreover have "re_findall (c # rest) = []"
        using None p(2) d Nil by (simp add: body_of_def)
      ultimately show ?thesis
        by (intro exI [of _ "[]"] exI [of _ "c # rest"]) simp
    next
      case (Cons seg segs')
      obtain gap rid where seg: "seg = (gap, rid)" by (cases seg)
      have cs: "cs = gap @ ref_text rid @ body_of segs' rest"
        using d Cons seg by (simp add: body_of_def)
      have "match_ref ((c # gap) @ ref_text rid @ body_of segs' rest) = None"
        using None cs by simp
      then have "match_ref (c # gap) = None" by (rule match_ref_None_prefix)
      moreover have "re_findall gap = []" using p(1) Cons seg by simp
      ultimately have g: "re_findall (c # gap) = []" by simp
      have "c # cs = body_of ((c # gap, rid) # segs') rest"
        using cs by (simp add: body_of_def)
      moreover have "list_all (\<lambda>(gap, rid). re_findall gap = [] \<and> hex32 rid) ((c # gap, rid) # segs')"
        using p(1) Cons seg g by simp
      ultimately show ?thesis using p(2) by blast
    qed
  qed
qed


section \<open>The numbering of the images\<close>

text \<open>
  The counter that the assignment loop returns is the counter it starts with plus the
  number of identifiers in its list that are in the index with an image extension; the
  loop changes no file and no directory, and every message it prints is the warning for
  an identifier that is not in the index.
\<close>

lemma assign_loop_counter:
  "fst (snd (assign_loop lookup base rids (m, n, w))) =
   n + length (filter (\<lambda>rid. case lookup rid of None \<Rightarrow> False
                 | Some f \<Rightarrow> py_lower (last_dot_segment f) \<in> IMAGE_EXTENSIONS) rids)"
  by (induction rids arbitrary: m n w) (auto simp: Let_def split: option.splits)

lemma rid_to_new_filename_of_world:
  assumes "rid_to_new_filename_of body lookup base w = (m, n, w1)"
  shows "files w1 = files w" "dirs w1 = dirs w"
    "\<exists>evs. trace w1 = trace w @ evs \<and>
       (\<forall>ev \<in> set evs. \<exists>rid. ev = ResourceNotFound rid \<and> lookup rid = None)"
proof -
  from assms have a:
    "assign_loop lookup base (unique_rids_loop (re_findall body) {} []) ([], 0, w) = (m, n, w1)"
    by (simp add: rid_to_new_filename_of_def)
  from assign_loop_world [OF a] show "files w1 = files w" "dirs w1 = dirs w" by simp_all
  from assign_loop_warnings [OF a]
  show "\<exists>evs. trace w1 = trace w @ evs \<and>
       (\<forall>ev \<in> set evs. \<exists>rid. ev = ResourceNotFound rid \<and> lookup rid = None)" .
qed

lemma process_resources_returns:
  assumes m: "m = fst (rid_to_new_filename_of body lookup base w)"
    and can: "can_copy e lookup assets m w"
  shows "\<exists>w'. process_resources e body lookup base assets w =
           (Inr (str_replace ''&nbsp;'' '' '' (re_sub (replace_resource m) body)), w')"
proof -
  obtain n w1 where a: "rid_to_new_filename_of body lookup base w = (m, n, w1)"
    using m by (cases "rid_to_new_filename_of body lookup base w") auto
  have "can_copy e lookup assets m w1"
    using can can_copy_same_files [OF rid_to_new_filename_of_world(1,2) [OF a]] by simp
  from copy_loop_returns [OF this, of False]
  obtain c' w' where "copy_loop e lookup assets m (False, w1) = (Inr c', w')" by auto
  then show ?thesis by (simp add: process_resources_def a)
qed

text \<open>
  Claim C4. A body holds the references \<open>R1\<close>, \<open>R2\<close>, \<open>R1\<close>, \<open>R3\<close> in this order, with any
  text that holds no reference before, between and after them; \<open>R1\<close> and \<open>R2\<close> are in the
  index with image extensions \<open>e1\<close> and \<open>e2\<close> (lowercased), \<open>R3\<close> with a file \<open>f3\<close> whose
  extension is no image extension. Then, in any world, the first part of
  \<^verbatim>\<open>process_resources\<close> returns the mapping \<open>R1\<close> to \<open>base-001.e1\<close>, \<open>R2\<close> to \<open>base-002.e2\<close>
  and \<open>R3\<close> to \<open>f3\<close> unchanged, in this order, with the counter at 2 and without a
  warning: the counter starts at zero in every call and \<open>R3\<close> takes no number. It takes
  none either when it comes first: for the references \<open>R3\<close>, \<open>R1\<close>, \<open>R2\<close> the images still
  get 001 and 002. The call copies the files of this mapping and, unless copying raises
  an error, returns the text \<open>out\<close> with \<^verbatim>\<open>&nbsp;\<close> replaced, where \<open>out\<close> is the body with
  both references to \<open>R1\<close> rewritten to the same link and the three texts in between as
  they were; under \<open>can_copy\<close> copying raises no error and the call returns this text.
\<close>

theorem process_resources_numbering:
  assumes hex: "hex32 R1" "hex32 R2" "hex32 R3"
    and ne: "R1 \<noteq> R2" "R3 \<noteq> R1" "R3 \<noteq> R2"
    and gaps: "re_findall t0 = []" "re_findall t1 = []" "re_findall t2 = []"
      "re_findall t3 = []" "re_findall t4 = []"
    and lk: "lookup R1 = Some f1" "lookup R2 = Some f2" "lookup R3 = Some f3"
    and ext: "py_lower (last_dot_segment f1) = e1" "e1 \<in> IMAGE_EXTENSIONS"
      "py_lower (last_dot_segment f2) = e2" "e2 \<in> IMAGE_EXTENSIONS"
      "py_lower (last_dot_segment f3) \<notin> IMAGE_EXTENSIONS"
    and body: "body = t0 @ ref_text R1 @ t1 @ ref_text R2 @ t2 @ ref_text R1 @ t3 @ ref_text R3 @ t4"
    and n: "n1 = base @ ''-001.'' @ e1" "n2 = base @ ''-002.'' @ e2"
    and m: "m = [(R1, n1), (R2, n2), (R3, f3)]"
    and out: "out = t0 @ ''![]('' @ n1 @ '')'' @ t1 @ ''![]('' @ n2 @ '')'' @ t2 @
                    ''![]('' @ n1 @ '')'' @ t3 @ ''![]('' @ f3 @ '')'' @ t4"
  shows "rid_to_new_filename_of body lookup base w = (m, 2, w) \<and>
         rid_to_new_filename_of (t0 @ ref_text R3 @ t1 @ ref_text R1 @ t2 @ ref_text R2 @ t3)
           lookup base w = ([(R3, f3), (R1, n1), (R2, n2)], 2, w) \<and>
         re_sub (replace_resource m) body = out \<and>
         process_resources e body lookup base assets w =
           (case copy_loop e lookup assets m (False, w) of
              (Inl err, w') \<Rightarrow> (Inl err, w')
            | (Inr created, w') \<Rightarrow> (Inr (str_replace ''&nbsp;'' '' '' out), w')) \<and>
         (can_copy e lookup assets m w \<longrightarrow>
            (\<exists>w'. process_resources e body lookup base assets w =
                    (Inr (str_replace ''&nbsp;'' '' '' out), w')))"
proof -
  have found: "re_findall body = [R1, R2, R1, R3]"
    by (simp add: body re_findall_ref hex gaps)
  have uniq: "unique_rids_loop (re_findall body) {} [] = [R1, R2, R3]"
    using ne by (simp add: found)
  have 1: "rid_to_new_filename_of body lookup base w = (m, 2, w)"
    using ne ext(2,4,5)
    by (simp add: m rid_to_new_filename_of_def uniq lk ext(1,3) n format_03d_1 format_03d_1'
        format_03d_2 format_03d_2' numeral_2_eq_2)
  have found': "re_findall (t0 @ ref_text R3 @ t1 @ ref_text R1 @ t2 @ ref_text R2 @ t3) = [R3, R1, R2]"
    by (simp add: re_findall_ref hex gaps)
  have 2: "rid_to_new_filename_of (t0 @ ref_text R3 @ t1 @ ref_text R1 @ t2 @ ref_text R2 @ t3)
           lookup base w = ([(R3, f3), (R1, n1), (R2, n2)], 2, w)"
    using ne ext(2,4,5)
    by (simp add: rid_to_new_filename_of_def found' lk ext(1,3) n format_03d_1 format_03d_1'
        format_03d_2 format_03d_2' numeral_2_eq_2)
  have 3: "re_sub (replace_resource m) body = out"
    using ne by (simp add: body re_sub_ref hex re_sub_no_refs gaps m replace_resource_def out)
  have 4: "process_resources e body lookup base assets w =
           (case copy_loop e lookup assets m (False, w) of
              (Inl err, w') \<Rightarrow> (Inl err, w')
            | (Inr created, w') \<Rightarrow> (Inr (str_replace ''&nbsp;'' '' '' out), w'))"
    by (simp add: process_resources_def 1 3 split: prod.splits sum.splits)
  have 5: "\<exists>w'. process_resources e body lookup base assets w =
                    (Inr (str_replace ''&nbsp;'' '' '' out), w')"
    if "can_copy e lookup assets m w"
    using process_resources_returns [of m body lookup base w e assets] that 1 3 by simp
  from 1 2 3 4 5 show ?thesis by blast
qed

theorem process_resources_numbering_witness:
  "rid_to_new_filename_of
     (''see '' @ ref_text rid_a @ '' and '' @ ref_text rid_b @ [] @ ref_text rid_a @ [] @
      ref_text rid_c @ [])
     example_lookup ''Trip'' source_world =
     ([(rid_a, ''Trip-001.png''), (rid_b, ''Trip-002.jpg''), (rid_c, rid_c @ ''.pdf'')], 2,
      source_world) \<and>
   fst (process_resources example_env
          (''see '' @ ref_text rid_a @ '' and '' @ ref_text rid_b @ [] @ ref_text rid_a @ [] @
           ref_text rid_c @ [])
          example_lookup ''Trip'' ''/v/assets'' source_world) =
     Inr (''see ![](Trip-001.png) and ![](Trip-002.jpg)![](Trip-001.png)![]('' @ rid_c @ ''.pdf)'')"
proof -
  have pdf: "py_lower (last_dot_segment (rid_c @ ''.pdf'')) \<notin> IMAGE_EXTENSIONS"
    by (simp add: example_extensions(3) example_image_extensions(3))
  have can: "can_copy example_env example_lookup ''/v/assets''
      [(rid_a, ''Trip'' @ ''-001.'' @ ''png''), (rid_b, ''Trip'' @ ''-002.'' @ ''jpg''),
       (rid_c, rid_c @ ''.pdf'')] source_world"
    by code_simp
  have nbsp: "str_replace ''&nbsp;'' '' ''
      (''see '' @ ''![]('' @ (''Trip'' @ ''-001.'' @ ''png'') @ '')'' @ '' and '' @
       ''![]('' @ (''Trip'' @ ''-002.'' @ ''jpg'') @ '')'' @ [] @
       ''![]('' @ (''Trip'' @ ''-001.'' @ ''png'') @ '')'' @ [] @
       ''![]('' @ (rid_c @ ''.pdf'') @ '')'' @ []) =
     ''see ![](Trip-001.png) and ![](Trip-002.jpg)![](Trip-001.png)![]('' @ rid_c @ ''.pdf)''"
    by code_simp
  note numbering = process_resources_numbering
    [OF hex32_examples(1,2,3) rid_examples_distinct(1,2,3)
        example_gaps(1) example_gaps(3) example_gaps(2) example_gaps(2) example_gaps(2)
        example_lookup_simps(1,2,3)
        example_extensions(1) example_image_extensions(1)
        example_extensions(2) example_image_extensions(2) pdf refl refl refl refl refl,
     of "''Trip''" source_world example_env "''/v/assets''"]
  from numbering [THEN conjunct1] have 1: "rid_to_new_filename_of
     (''see '' @ ref_text rid_a @ '' and '' @ ref_text rid_b @ [] @ ref_text rid_a @ [] @
      ref_text rid_c @ [])
     example_lookup ''Trip'' source_world =
     ([(rid_a, ''Trip-001.png''), (rid_b, ''Trip-002.jpg''), (rid_c, rid_c @ ''.pdf'')], 2,
      source_world)"
    by simp
  from numbering [THEN conjunct2, THEN conjunct2, THEN conjunct2, THEN conjunct2, rule_format, OF can]
  have 2: "fst (process_resources example_env
          (''see '' @ ref_text rid_a @ '' and '' @ ref_text rid_b @ [] @ ref_text rid_a @ [] @
           ref_text rid_c @ [])
          example_lookup ''Trip'' ''/v/assets'' source_world) =
     Inr (''see ![](Trip-001.png) and ![](Trip-002.jpg)![](Trip-001.png)![]('' @ rid_c @ ''.pdf)'')"
    unfolding nbsp by auto
  from 1 2 show ?thesis by (simp only:)
qed

section \<open>The text that is returned\<close>

lemma str_replace_nbsp_none:
  "\<not> sublist ''&nbsp;'' (str_replace ''&nbsp;'' '' '' s)"
  by (rule str_replace_no_old [where x = "CHR '' ''"]) simp_all

text \<open>
  Where \<^verbatim>\<open>&\<close> stands in a text only as the start of \<^verbatim>\<open>&nbsp;\<close>, the replacement turns
  every \<^verbatim>\<open>&nbsp;\<close> into a space and keeps the rest.
\<close>

lemma str_replace_nbsp_piece:
  "CHR ''&'' \<notin> set a \<Longrightarrow>
   str_replace ''&nbsp;'' '' '' (a @ ''&nbsp;'' @ b) = a @ '' '' @ str_replace ''&nbsp;'' '' '' b"
  by (induction a) auto

lemma str_replace_nbsp_plain:
  "CHR ''&'' \<notin> set a \<Longrightarrow> str_replace ''&nbsp;'' '' '' a = a"
  by (induction a) auto

text \<open>
  Claim C6. A body is made of references to identifiers and of texts without a reference
  before, between and after them (every body is, lemma \<open>body_of_exists\<close>). Then
  \<^verbatim>\<open>re.findall\<close> finds exactly these identifiers, in order; an identifier has a new
  filename exactly if it is in the index; and, unless copying raises an error, the call
  returns \<open>out\<close>: the text in which every reference to an identifier of the index is the
  link to its new filename and everything else is as in the body (\<open>links_rewritten\<close>),
  with \<^verbatim>\<open>&nbsp;\<close> replaced by a space in this rewritten text, so also in the new
  filenames. Under \<open>can_copy\<close> the call returns \<open>out\<close>. No \<^verbatim>\<open>&nbsp;\<close> is left in \<open>out\<close>.
\<close>

theorem process_resources_nbsp_after_links:
  assumes segs: "list_all (\<lambda>(gap, rid). re_findall gap = [] \<and> hex32 rid) segs"
    and rest: "re_findall rest = []"
    and body: "body = body_of segs rest"
    and m: "m = fst (rid_to_new_filename_of body lookup base w)"
    and out: "out = str_replace ''&nbsp;'' '' '' (links_rewritten (map_of m) segs rest)"
  shows "re_findall body = map snd segs \<and>
         list_all (\<lambda>(gap, rid). (map_of m rid = None) = (lookup rid = None)) segs \<and>
         fst (process_resources e body lookup base assets w) =
           map_sum id (\<lambda>created. out)
             (fst (copy_loop e lookup assets m
                (False, snd (snd (rid_to_new_filename_of body lookup base w))))) \<and>
         (can_copy e lookup assets m w \<longrightarrow>
            fst (process_resources e body lookup base assets w) = Inr out) \<and>
         \<not> sublist ''&nbsp;'' out"
proof -
  have 1: "re_findall body = map snd segs"
    by (simp add: body re_findall_body_of [OF segs] rest)
  have d: "dom (map_of m) = {rid \<in> set (re_findall body). lookup rid \<noteq> None}"
    unfolding m by (rule rid_to_new_filename_dom)
  have "(map_of m rid = None) = (lookup rid = None)" if "rid \<in> snd ` set segs" for rid
  proof -
    from that 1 have "rid \<in> set (re_findall body)" by simp
    with d have "(rid \<in> dom (map_of m)) = (lookup rid \<noteq> None)" by simp
    then show ?thesis unfolding domIff by blast
  qed
  then have 2: "list_all (\<lambda>(gap, rid). (map_of m rid = None) = (lookup rid = None)) segs"
    unfolding list_all_iff by force
  have sub: "re_sub (replace_resource m) body = links_rewritten (map_of m) segs rest"
    unfolding body by (rule re_sub_links_rewritten [OF segs rest])
  have 3: "fst (process_resources e body lookup base assets w) =
           map_sum id (\<lambda>created. out)
             (fst (copy_loop e lookup assets m
                (False, snd (snd (rid_to_new_filename_of body lookup base w)))))"
    using process_resources_fst [of e body lookup base assets w] sub m out by simp
  have 4: "fst (process_resources e body lookup base assets w) = Inr out"
    if "can_copy e lookup assets m w"
    using process_resources_returns [OF m that] sub out by auto
  have 5: "\<not> sublist ''&nbsp;'' out"
    unfolding out by (rule str_replace_nbsp_none)
  from 1 2 3 4 5 show ?thesis by blast
qed

theorem process_resources_nbsp_after_links_witness:
  "fst (process_resources example_env
          (''x&nbsp;y '' @ ref_text rid_a @ ''&nbsp;'' @ ref_text rid_d @ '' &nbsp;&nbsp;z'')
          example_lookup ''a&nbsp;b'' ''/v/assets'' source_world) =
     Inr (''x y ![](a b-001.png) '' @ ref_text rid_d @ ''   z'')"
proof -
  let ?segs = "[(''x&nbsp;y '', rid_a), (''&nbsp;'', rid_d)]"
  let ?rest = "'' &nbsp;&nbsp;z''"
  have b: "body_of ?segs ?rest =
      ''x&nbsp;y '' @ ref_text rid_a @ ''&nbsp;'' @ ref_text rid_d @ '' &nbsp;&nbsp;z''"
    by (simp add: body_of_def)
  have segs: "list_all (\<lambda>(gap, rid). re_findall gap = [] \<and> hex32 rid) ?segs"
    by (simp add: hex32_examples match_ref_def ref_pattern_def)
  have rest: "re_findall ?rest = []"
    by (simp add: match_ref_def ref_pattern_def)
  have m: "fst (rid_to_new_filename_of (body_of ?segs ?rest) example_lookup ''a&nbsp;b''
             source_world) = [(rid_a, ''a&nbsp;b-001.png'')]"
    by code_simp
  have can: "can_copy example_env example_lookup ''/v/assets'' [(rid_a, ''a&nbsp;b-001.png'')]
      source_world"
    by code_simp
  have o: "str_replace ''&nbsp;'' '' ''
      (links_rewritten (map_of [(rid_a, ''a&nbsp;b-001.png'')]) ?segs ?rest) =
      ''x y ![](a b-001.png) '' @ ref_text rid_d @ ''   z''"
    by code_simp
  from process_resources_nbsp_after_links [OF segs rest refl refl refl,
      of example_lookup "''a&nbsp;b''" source_world example_env "''/v/assets''"]
  have "can_copy example_env example_lookup ''/v/assets''
          (fst (rid_to_new_filename_of (body_of ?segs ?rest) example_lookup ''a&nbsp;b''
             source_world)) source_world \<longrightarrow>
        fst (process_resources example_env (body_of ?segs ?rest) example_lookup ''a&nbsp;b''
               ''/v/assets'' source_world) =
        Inr (str_replace ''&nbsp;'' '' ''
          (links_rewritten (map_of (fst (rid_to_new_filename_of (body_of ?segs ?rest)
             example_lookup ''a&nbsp;b'' source_world))) ?segs ?rest))"
    by blast
  then have "fst (process_resources example_env (body_of ?segs ?rest) example_lookup ''a&nbsp;b''
               ''/v/assets'' source_world) =
        Inr (''x y ![](a b-001.png) '' @ ref_text rid_d @ ''   z'')"
    unfolding m o using can by blast
  then show ?thesis unfolding b .
qed

text \<open>
  Claim C10. A reference in the body has an identifier that is in the index, and its
  source file \<open>src\<close> does not exist before the call. Then the identifier gets a new
  filename; the step of the copy loop for it, in any world where \<open>src\<close> does not exist,
  returns without an error and leaves the flag and the world as they are. If it is the
  only reference of the body, the call returns the body with the reference rewritten to
  the link to the new filename (and \<^verbatim>\<open>&nbsp;\<close> replaced) and leaves the world exactly as
  it was: no warning, no directory, no copy. With other references in the body, under
  \<open>can_copy\<close> and where \<open>src\<close> is not below the assets directory, the call returns the
  text with this reference rewritten to the link, \<open>src\<close> still does not exist afterwards,
  no warning is printed for the identifier and nothing is copied from \<open>src\<close>.
\<close>

theorem process_resources_missing_source:
  assumes hex: "hex32 rid" and some: "lookup rid = Some res"
    and src: "src = os_path_join (JOPLIN_RESOURCE_DIR e) res"
    and missing: "\<not> os_path_exists w src"
    and body: "body = pre @ ref_text rid @ post"
    and m: "m = fst (rid_to_new_filename_of body lookup base w)"
  shows "\<exists>new. map_of m rid = Some new \<and>
           (\<forall>created w1. \<not> os_path_exists w1 src \<longrightarrow>
              copy_resource e lookup assets (rid, new) (created, w1) = (Inr created, w1)) \<and>
           (re_findall pre = [] \<and> re_findall post = [] \<longrightarrow>
              m = [(rid, new)] \<and>
              process_resources e body lookup base assets w =
                (Inr (str_replace ''&nbsp;'' '' '' (pre @ ''![]('' @ new @ '')'' @ post)), w)) \<and>
           (can_copy e lookup assets m w \<and> \<not> prefix assets src \<longrightarrow>
              (\<exists>w'. process_resources e body lookup base assets w =
                      (Inr (str_replace ''&nbsp;'' '' ''
                              (re_sub (replace_resource m) pre @ ''![]('' @ new @ '')'' @
                               re_sub (replace_resource m) post)), w') \<and>
                    \<not> os_path_exists w' src \<and>
                    (\<exists>evs. trace w' = trace w @ evs \<and> ResourceNotFound rid \<notin> set evs \<and>
                       (\<forall>dst. CopyFile src dst \<notin> set evs))))"
proof -
  have "rid \<in> set (re_findall body)"
    by (simp add: body re_findall_ref [OF hex])
  then have "rid \<in> dom (map_of m)"
    unfolding m rid_to_new_filename_dom using some by simp
  then obtain new where new: "map_of m rid = Some new" by auto
  have skip: "copy_resource e lookup assets (rid, new) (created, w1) = (Inr created, w1)"
    if "\<not> os_path_exists w1 src" for created w1
    using some that by (simp add: copy_resource_def src)
  have sub: "re_sub (replace_resource m) body =
             re_sub (replace_resource m) pre @ ''![]('' @ new @ '')'' @
             re_sub (replace_resource m) post"
    by (simp add: body re_sub_ref [OF hex] replace_resource_def new)
  obtain n wa where a: "rid_to_new_filename_of body lookup base w = (m, n, wa)"
    using m by (cases "rid_to_new_filename_of body lookup base w") auto
  note wa = rid_to_new_filename_of_world [OF a]
  have single: "m = [(rid, new)] \<and>
      process_resources e body lookup base assets w =
        (Inr (str_replace ''&nbsp;'' '' '' (pre @ ''![]('' @ new @ '')'' @ post)), w)"
    if gaps: "re_findall pre = []" "re_findall post = []"
  proof -
    have found: "re_findall body = [rid]"
      by (simp add: body re_findall_ref [OF hex] gaps)
    have "\<exists>x k. rid_to_new_filename_of body lookup base w = ([(rid, x)], k, w)"
      by (simp add: rid_to_new_filename_of_def found some Let_def)
    then obtain x k where r: "rid_to_new_filename_of body lookup base w = ([(rid, x)], k, w)"
      by blast
    with m new have mx: "m = [(rid, new)]" by auto
    have "copy_loop e lookup assets m (False, w) = (Inr False, w)"
      using skip [OF missing, of False] by (simp add: mx)
    moreover have "rid_to_new_filename_of body lookup base w = (m, k, w)"
      using r mx m by simp
    ultimately have "process_resources e body lookup base assets w =
        (Inr (str_replace ''&nbsp;'' '' '' (re_sub (replace_resource m) body)), w)"
      by (simp add: process_resources_def)
    then show ?thesis
      using mx sub by (simp add: re_sub_no_refs gaps)
  qed
  have general: "\<exists>w'. process_resources e body lookup base assets w =
                      (Inr (str_replace ''&nbsp;'' '' ''
                              (re_sub (replace_resource m) pre @ ''![]('' @ new @ '')'' @
                               re_sub (replace_resource m) post)), w') \<and>
                    \<not> os_path_exists w' src \<and>
                    (\<exists>evs. trace w' = trace w @ evs \<and> ResourceNotFound rid \<notin> set evs \<and>
                       (\<forall>dst. CopyFile src dst \<notin> set evs))"
    if can: "can_copy e lookup assets m w" and out: "\<not> prefix assets src"
  proof -
    have can1: "can_copy e lookup assets m wa"
      using can can_copy_same_files [OF wa(1,2)] by simp
    have miss1: "\<not> os_path_exists wa src"
      using missing wa(1,2) by (simp add: os_path_exists_def os_path_isdir_def)
    have "(rid, new) \<in> set m" using new by (rule map_of_SomeD)
    then have notanc: "src \<notin> set (path_prefixes assets)"
      using can some unfolding can_copy_def list_all_iff src by fastforce
    from copy_loop_missing [OF can1 _ miss1 out notanc, of False]
    obtain c' w' evs2 where loop: "copy_loop e lookup assets m (False, wa) = (Inr c', w')"
      and miss': "\<not> os_path_exists w' src" and t2: "trace w' = trace wa @ evs2"
      and e2: "\<forall>ev \<in> set evs2. ev = MakeDirs assets \<or> (\<exists>s d. ev = CopyFile s d \<and> s \<noteq> src)"
      by auto
    from wa(3) obtain evs1 where t1: "trace wa = trace w @ evs1"
      and e1: "\<forall>ev \<in> set evs1. \<exists>rid. ev = ResourceNotFound rid \<and> lookup rid = None"
      by blast
    have pr: "process_resources e body lookup base assets w =
        (Inr (str_replace ''&nbsp;'' '' '' (re_sub (replace_resource m) body)), w')"
      using loop by (simp add: process_resources_def a)
    have "ResourceNotFound rid \<notin> set (evs1 @ evs2)"
      using e1 e2 some by auto
    moreover have "CopyFile src dst \<notin> set (evs1 @ evs2)" for dst
      using e1 e2 by auto
    moreover have "trace w' = trace w @ (evs1 @ evs2)" using t1 t2 by simp
    ultimately show ?thesis using pr sub miss' by (intro exI [of _ w']) auto
  qed
  from new skip single general show ?thesis by blast
qed

theorem process_resources_missing_source_witness:
  "fst (process_resources example_env
          ((''x '' @ ref_text rid_a @ '' y '') @ ref_text rid_b @ '' z'')
          example_lookup ''Trip'' ''/v/assets'' source_world) =
     Inr ''x ![](Trip-001.png) y ![](Trip-002.jpg) z'' \<and>
   \<not> os_path_exists
       (snd (process_resources example_env
          ((''x '' @ ref_text rid_a @ '' y '') @ ref_text rid_b @ '' z'')
          example_lookup ''Trip'' ''/v/assets'' source_world))
       (''/res/'' @ rid_b @ ''.JPG'') \<and>
   fst (process_resources example_env (''x '' @ ref_text rid_b @ '' z'')
          example_lookup ''Trip'' ''/v/assets'' source_world) =
     Inr ''x ![](Trip-001.jpg) z'' \<and>
   snd (process_resources example_env (''x '' @ ref_text rid_b @ '' z'')
          example_lookup ''Trip'' ''/v/assets'' source_world) = source_world"
proof -
  let ?pre = "''x '' @ ref_text rid_a @ '' y ''"
  let ?body = "?pre @ ref_text rid_b @ '' z''"
  let ?m = "[(rid_a, ''Trip-001.png''), (rid_b, ''Trip-002.jpg'')]"
  let ?src = "''/res/'' @ rid_b @ ''.JPG''"
  have src: "os_path_join (JOPLIN_RESOURCE_DIR example_env) (rid_b @ ''.JPG'') = ?src"
    by (simp add: os_path_join_def example_env_def rid_b_def)
  have missing: "\<not> os_path_exists source_world ?src"
    by code_simp
  have m: "fst (rid_to_new_filename_of ?body example_lookup ''Trip'' source_world) = ?m"
    by code_simp
  have can: "can_copy example_env example_lookup ''/v/assets'' ?m source_world"
    by code_simp
  have out: "\<not> prefix ''/v/assets'' ?src"
    by (simp add: rid_b_def)
  have pre: "re_sub (replace_resource ?m) ?pre = ''x ![](Trip-001.png) y ''"
    by code_simp
  have post: "re_sub (replace_resource ?m) '' z'' = '' z''"
    by code_simp
  have r: "str_replace ''&nbsp;'' '' ''
      (''x ![](Trip-001.png) y '' @ ''![]('' @ ''Trip-002.jpg'' @ '')'' @ '' z'') =
      ''x ![](Trip-001.png) y ![](Trip-002.jpg) z''"
    by code_simp
  from process_resources_missing_source
    [where rid = rid_b and lookup = example_lookup and pre = ?pre and post = "'' z''"
       and base = "''Trip''" and w = source_world and e = example_env and assets = "''/v/assets''"
       and src = ?src and body = ?body and m = ?m,
     OF hex32_examples(2) example_lookup_simps(2) src [symmetric] missing refl m [symmetric]]
  obtain new where new: "map_of ?m rid_b = Some new"
    and g: "can_copy example_env example_lookup ''/v/assets'' ?m source_world \<and>
            \<not> prefix ''/v/assets'' ?src \<longrightarrow>
              (\<exists>w'. process_resources example_env ?body example_lookup ''Trip'' ''/v/assets''
                       source_world =
                      (Inr (str_replace ''&nbsp;'' '' ''
                              (re_sub (replace_resource ?m) ?pre @ ''![]('' @ new @ '')'' @
                               re_sub (replace_resource ?m) '' z'')), w') \<and>
                    \<not> os_path_exists w' ?src \<and>
                    (\<exists>evs. trace w' = trace source_world @ evs \<and>
                       ResourceNotFound rid_b \<notin> set evs \<and>
                       (\<forall>dst. CopyFile ?src dst \<notin> set evs)))"
    by blast
  from new have n: "new = ''Trip-002.jpg''"
    using rid_examples_distinct(1) by simp
  from g can out obtain w' where
    "process_resources example_env ?body example_lookup ''Trip'' ''/v/assets'' source_world =
       (Inr ''x ![](Trip-001.png) y ![](Trip-002.jpg) z'', w')"
    "\<not> os_path_exists w' ?src"
    unfolding n pre post r by blast
  then have first: "fst (process_resources example_env ?body example_lookup ''Trip''
        ''/v/assets'' source_world) = Inr ''x ![](Trip-001.png) y ![](Trip-002.jpg) z'' \<and>
      \<not> os_path_exists (snd (process_resources example_env ?body example_lookup ''Trip''
        ''/v/assets'' source_world)) ?src"
    by simp
  let ?body1 = "''x '' @ ref_text rid_b @ '' z''"
  let ?m1 = "[(rid_b, ''Trip-001.jpg'')]"
  have gaps: "re_findall ''x '' = [] \<and> re_findall '' z'' = []"
    by (simp add: match_ref_def ref_pattern_def)
  have m1: "fst (rid_to_new_filename_of ?body1 example_lookup ''Trip'' source_world) = ?m1"
    by code_simp
  have r1: "str_replace ''&nbsp;'' '' '' (''x '' @ ''![]('' @ ''Trip-001.jpg'' @ '')'' @ '' z'') =
      ''x ![](Trip-001.jpg) z''"
    by code_simp
  from process_resources_missing_source
    [where rid = rid_b and lookup = example_lookup and pre = "''x ''" and post = "'' z''"
       and base = "''Trip''" and w = source_world and e = example_env and assets = "''/v/assets''"
       and src = ?src and body = ?body1 and m = ?m1,
     OF hex32_examples(2) example_lookup_simps(2) src [symmetric] missing refl m1 [symmetric]]
  obtain new1 where new1: "map_of ?m1 rid_b = Some new1"
    and s: "re_findall ''x '' = [] \<and> re_findall '' z'' = [] \<longrightarrow>
      ?m1 = [(rid_b, new1)] \<and>
      process_resources example_env ?body1 example_lookup ''Trip'' ''/v/assets'' source_world =
        (Inr (str_replace ''&nbsp;'' '' '' (''x '' @ ''![]('' @ new1 @ '')'' @ '' z'')),
         source_world)"
    by blast
  from new1 have n1: "new1 = ''Trip-001.jpg''" by simp
  from s gaps have
    "process_resources example_env ?body1 example_lookup ''Trip'' ''/v/assets'' source_world =
       (Inr ''x ![](Trip-001.jpg) z'', source_world)"
    unfolding n1 r1 by blast
  then have second: "fst (process_resources example_env ?body1 example_lookup ''Trip''
        ''/v/assets'' source_world) = Inr ''x ![](Trip-001.jpg) z'' \<and>
     snd (process_resources example_env ?body1 example_lookup ''Trip''
        ''/v/assets'' source_world) = source_world"
    by simp
  from first second show ?thesis by blast
qed

section \<open>A note with a blank title\<close>

text \<open>
  Claim C1. A note whose title is empty or all whitespace is exported as
  \<^verbatim>\<open>Untitled.md\<close>. For a null or an empty title this is so (lemma
  \<open>note_filename_empty\<close>). But the default is taken before the title is stripped, so a
  title of spaces is not replaced: it is stripped to the empty string, and the note is
  written to the file \<^verbatim>\<open>.md\<close>.
\<close>

theorem note_filename_blank_title:
  "note_filename (Some ''   '') = ''.md'' \<and> note_filename (Some ''   '') \<noteq> ''Untitled.md'' \<and>
   (case export_note example_env Map.empty example_lookup
           (''n1'', Some ''   '', Some ''text'', ''f1'') empty_world of
      (r, w) \<Rightarrow> (r, files w ''/v/joplin/.md'', files w ''/v/joplin/Untitled.md'')) =
   (Inr ''.md'', Some ''text'', None)"
proof (intro conjI)
  show "note_filename (Some ''   '') = ''.md''"
    by (simp add: note_filename_def safe_title_of_def title_or_untitled_def py_strip_def
        is_space_def)
  then show "note_filename (Some ''   '') \<noteq> ''Untitled.md''"
    by simp
  show "(case export_note example_env Map.empty example_lookup
           (''n1'', Some ''   '', Some ''text'', ''f1'') empty_world of
      (r, w) \<Rightarrow> (r, files w ''/v/joplin/.md'', files w ''/v/joplin/Untitled.md'')) =
   (Inr ''.md'', Some ''text'', None)"
    by code_simp
qed

section \<open>The folder table as a forest\<close>

lemma child_edges_iff: "(p, f) \<in> child_edges folders \<longleftrightarrow> (\<exists>t. (f, t, p) \<in> set folders)"
  by (force simp: child_edges_def)

lemma finite_child_edges: "finite (child_edges folders)"
  by (simp add: child_edges_def)

lemma select_subfolders_iff:
  "(f, t) \<in> set (select_subfolders folders p) \<longleftrightarrow> (f, t, p) \<in> set folders"
  by (auto simp: select_subfolders_def)

lemma unique_row:
  assumes "distinct (map fst folders)" "(f, t, p) \<in> set folders" "(f, t', p') \<in> set folders"
  shows "t = t' \<and> p = p'"
proof -
  have "map_of folders f = Some (t, p)"
    by (rule map_of_is_SomeI [OF assms(1) assms(2)])
  moreover have "map_of folders f = Some (t', p')"
    by (rule map_of_is_SomeI [OF assms(1) assms(3)])
  ultimately show ?thesis by simp
qed

lemma unique_parent:
  assumes "distinct (map fst folders)" "(p, f) \<in> child_edges folders" "(p', f) \<in> child_edges folders"
  shows "p = p'"
proof -
  obtain t where t: "(f, t, p) \<in> set folders"
    using assms(2) by (auto simp: child_edges_iff)
  obtain t' where t': "(f, t', p') \<in> set folders"
    using assms(3) by (auto simp: child_edges_iff)
  from unique_row [OF assms(1) t t'] show ?thesis by simp
qed

lemma distinct_select_subfolders:
  assumes "distinct (map fst folders)"
  shows "distinct (map fst (select_subfolders folders p))"
proof -
  have "map fst (select_subfolders folders p) =
        map fst (filter (\<lambda>(f, t, p'). p' = p) folders)"
    unfolding select_subfolders_def by (induction folders) auto
  then show ?thesis using assms by (simp add: distinct_map_filter)
qed

text \<open>Two ancestors of one folder lie on one branch.\<close>

lemma ancestors_comparable:
  assumes d: "distinct (map fst folders)"
    and a: "(a, y) \<in> (child_edges folders)\<^sup>*" and b: "(b, y) \<in> (child_edges folders)\<^sup>*"
  shows "(a, b) \<in> (child_edges folders)\<^sup>* \<or> (b, a) \<in> (child_edges folders)\<^sup>*"
  using a b
proof (induction arbitrary: b rule: rtrancl_induct)
  case base
  then show ?case by simp
next
  case (step z y)
  from step.prems show ?case
  proof (cases rule: rtranclE)
    case base
    then show ?thesis using step.hyps by auto
  next
    case (step z')
    then have "z' = z" using unique_parent [OF d] \<open>(z, y) \<in> child_edges folders\<close> by blast
    with step step.IH show ?thesis by blast
  qed
qed

text \<open>The subtrees of two children of one folder are disjoint.\<close>

lemma sibling_subtrees_disjoint:
  assumes d: "distinct (map fst folders)" and ac: "acyclic (child_edges folders)"
    and c: "(x, c) \<in> child_edges folders" and c': "(x, c') \<in> child_edges folders"
    and ne: "c \<noteq> c'"
    and y: "(c, y) \<in> (child_edges folders)\<^sup>*" and y': "(c', y) \<in> (child_edges folders)\<^sup>*"
  shows False
proof -
  let ?E = "child_edges folders"
  have up: "False" if "(u, v) \<in> ?E\<^sup>*" "u \<noteq> v" "(x, u) \<in> ?E" "(x, v) \<in> ?E" for u v
  proof -
    from that(1,2) have "(u, v) \<in> ?E\<^sup>+" by (simp add: rtrancl_eq_or_trancl)
    then obtain p where p: "(u, p) \<in> ?E\<^sup>*" "(p, v) \<in> ?E" by (meson tranclD2)
    then have "p = x" using unique_parent [OF d] that(4) by blast
    with p(1) that(3) have "(x, x) \<in> ?E\<^sup>+" by (meson rtrancl_into_trancl2)
    with ac show False by (simp add: acyclic_def)
  qed
  from ancestors_comparable [OF d y y'] show False
    using up [of c c'] up [of c' c] c c' ne by blast
qed

section \<open>Fuel\<close>

lemma os_path_join_Nil: "os_path_join [] b = b"
  by (simp add: os_path_join_def)

lemma for_subfolders_Cons:
  "for_subfolders r path ((f, t) # cs) h =
     (case r f (os_path_join path (sanitize_filename t))
             (h(f \<mapsto> os_path_join path (sanitize_filename t))) of
        None \<Rightarrow> None
      | Some h1 \<Rightarrow> for_subfolders r path cs h1)"
  by (simp add: Let_def os_path_join_Nil)

lemma for_subfolders_mono:
  assumes "\<And>f p h h'. r f p h = Some h' \<Longrightarrow> r' f p h = Some h'"
  shows "for_subfolders r path cs h = Some h' \<Longrightarrow> for_subfolders r' path cs h = Some h'"
proof (induction cs arbitrary: h)
  case Nil
  then show ?case by simp
next
  case (Cons c cs)
  obtain f t where c: "c = (f, t)" by (cases c)
  let ?fp = "os_path_join path (sanitize_filename t)"
  from Cons.prems obtain h1 where
    1: "r f ?fp (h(f \<mapsto> ?fp)) = Some h1" and 2: "for_subfolders r path cs h1 = Some h'"
    unfolding c for_subfolders_Cons by (auto split: option.splits)
  from assms [OF 1] Cons.IH [OF 2] show ?case
    unfolding c for_subfolders_Cons by simp
qed

lemma build_hierarchy_Suc:
  "build_hierarchy n folders x path h = Some h' \<Longrightarrow>
   build_hierarchy (Suc n) folders x path h = Some h'"
proof (induction n arbitrary: x path h h')
  case 0
  then show ?case by simp
next
  case (Suc n)
  from Suc.prems have
    "for_subfolders (build_hierarchy n folders) path (select_subfolders folders x) h = Some h'"
    by simp
  then have
    "for_subfolders (build_hierarchy (Suc n) folders) path (select_subfolders folders x) h = Some h'"
    by (rule for_subfolders_mono [rotated]) (rule Suc.IH)
  then show ?case by simp
qed

lemma build_hierarchy_mono:
  "n \<le> k \<Longrightarrow> build_hierarchy n folders x path h = Some h' \<Longrightarrow>
   build_hierarchy k folders x path h = Some h'"
  by (induction k) (auto simp: le_Suc_eq dest: build_hierarchy_Suc simp del: build_hierarchy.simps)

text \<open>
  The folders below a folder, those below a list of subfolders (each with the subfolder
  itself), and what a call of \<^verbatim>\<open>build_hierarchy\<close> for a folder \<open>x\<close> with the path
  \<open>path\<close> has done to the dictionary when it returns: the keys \<open>D\<close> are added, the other
  entries are as they were, and the entry of each added folder is the path of its parent
  (\<open>path\<close> for \<open>x\<close> itself) joined with its sanitized title.
\<close>

definition descendants :: "folder_row list \<Rightarrow> string \<Rightarrow> string set" where
  "descendants folders x = {y. (x, y) \<in> (child_edges folders)\<^sup>+}"

definition subtrees :: "folder_row list \<Rightarrow> (string \<times> string) list \<Rightarrow> string set" where
  "subtrees folders cs = (\<Union>c \<in> fst ` set cs. insert c (descendants folders c))"

definition built ::
  "folder_row list \<Rightarrow> string \<Rightarrow> string \<Rightarrow> string set \<Rightarrow> (string \<rightharpoonup> string) \<Rightarrow>
   (string \<rightharpoonup> string) \<Rightarrow> bool" where
  "built folders x path D h h' =
     (dom h' = dom h \<union> D \<and> (\<forall>y. y \<notin> D \<longrightarrow> h' y = h y) \<and>
      (\<forall>f t p. (f, t, p) \<in> set folders \<and> f \<in> D \<longrightarrow>
         h' f = Some (os_path_join (if p = x then path else the (h' p)) (sanitize_filename t))))"

lemma in_subtree_iff:
  "y \<in> insert c (descendants folders c) \<longleftrightarrow> (c, y) \<in> (child_edges folders)\<^sup>*"
  by (auto simp: descendants_def rtrancl_eq_or_trancl)

lemma descendants_subtrees:
  "descendants folders x = subtrees folders (select_subfolders folders x)"
proof (rule set_eqI)
  fix y
  let ?cs = "select_subfolders folders x"
  have tr: "(x, y) \<in> (child_edges folders)\<^sup>+ \<longleftrightarrow>
        (\<exists>c. (x, c) \<in> child_edges folders \<and> (c, y) \<in> (child_edges folders)\<^sup>*)"
    by (meson rtrancl_into_trancl2 tranclD)
  have mem: "c \<in> fst ` set ?cs \<longleftrightarrow> (x, c) \<in> child_edges folders" for c
  proof -
    have "c \<in> fst ` set ?cs \<longleftrightarrow> (\<exists>t. (c, t) \<in> set ?cs)"
      by force
    then show ?thesis by (simp add: select_subfolders_iff child_edges_iff)
  qed
  have A: "y \<in> descendants folders x \<longleftrightarrow>
           (\<exists>c. (x, c) \<in> child_edges folders \<and> (c, y) \<in> (child_edges folders)\<^sup>*)"
    using tr by (simp add: descendants_def)
  have B: "y \<in> subtrees folders ?cs \<longleftrightarrow>
           (\<exists>c. c \<in> fst ` set ?cs \<and> y \<in> insert c (descendants folders c))"
    unfolding subtrees_def by blast
  show "y \<in> descendants folders x \<longleftrightarrow> y \<in> subtrees folders ?cs"
    by (simp only: A B in_subtree_iff mem)
qed

lemma parent_in_subtree:
  assumes d: "distinct (map fst folders)"
    and f: "f \<in> descendants folders c" and row: "(f, t, p) \<in> set folders"
  shows "p \<in> insert c (descendants folders c)"
proof -
  from f obtain p' where p': "(c, p') \<in> (child_edges folders)\<^sup>*" "(p', f) \<in> child_edges folders"
    unfolding descendants_def by (auto dest: tranclD2)
  have "(p, f) \<in> child_edges folders" using row by (auto simp: child_edges_iff)
  then have "p' = p" using unique_parent [OF d p'(2)] by simp
  with p'(1) show ?thesis by (simp only: in_subtree_iff)
qed

lemma not_own_descendant:
  "acyclic (child_edges folders) \<Longrightarrow> c \<notin> descendants folders c"
  by (auto simp: descendants_def acyclic_def)

lemma parent_not_in_subtree:
  assumes ac: "acyclic (child_edges folders)" and c: "(x, c) \<in> child_edges folders"
  shows "x \<notin> insert c (descendants folders c)"
proof
  assume "x \<in> insert c (descendants folders c)"
  then have "(c, x) \<in> (child_edges folders)\<^sup>*" by (simp only: in_subtree_iff)
  with c have "(x, x) \<in> (child_edges folders)\<^sup>+" by (meson rtrancl_into_trancl2)
  with ac show False by (simp add: acyclic_def)
qed

lemma for_subfolders_built:
  assumes d: "distinct (map fst folders)" and ac: "acyclic (child_edges folders)"
    and good: "\<And>c fp h h'. recurse c fp h = Some h' \<Longrightarrow>
                 built folders c fp (descendants folders c) h h'"
  shows "\<forall>c \<in> set cs. (fst c, snd c, x) \<in> set folders \<Longrightarrow> distinct (map fst cs) \<Longrightarrow>
         for_subfolders recurse path cs h = Some h' \<Longrightarrow>
         built folders x path (subtrees folders cs) h h'"
proof (induction cs arbitrary: h)
  case Nil
  then show ?case by (simp add: built_def subtrees_def)
next
  case (Cons a cs)
  obtain c tc where a: "a = (c, tc)" by (cases a)
  let ?fp = "os_path_join path (sanitize_filename tc)"
  let ?S = "insert c (descendants folders c)"
  let ?R = "subtrees folders cs"
  from Cons.prems(3) obtain h2 where
    run1: "recurse c ?fp (h(c \<mapsto> ?fp)) = Some h2" and
    run2: "for_subfolders recurse path cs h2 = Some h'"
    unfolding a for_subfolders_Cons by (auto split: option.splits)
  have rowc: "(c, tc, x) \<in> set folders" using Cons.prems(1) a by simp
  then have edge: "(x, c) \<in> child_edges folders" by (auto simp: child_edges_iff)
  have b1: "built folders c ?fp (descendants folders c) (h(c \<mapsto> ?fp)) h2"
    by (rule good [OF run1])
  have b2: "built folders x path ?R h2 h'"
    using Cons.IH [OF _ _ run2] Cons.prems(1,2) by simp
  have split: "subtrees folders (a # cs) = ?S \<union> ?R"
    by (simp add: subtrees_def a)
  have disj: "y \<in> ?S \<Longrightarrow> y \<notin> ?R" for y
  proof
    assume y: "y \<in> ?S" and "y \<in> ?R"
    then obtain c' where c': "c' \<in> fst ` set cs" "y \<in> insert c' (descendants folders c')"
      unfolding subtrees_def by blast
    then obtain t' where "(c', t') \<in> set cs" by auto
    then have "(c', t', x) \<in> set folders" using Cons.prems(1) by force
    then have edge': "(x, c') \<in> child_edges folders" by (auto simp: child_edges_iff)
    have "c \<noteq> c'" using Cons.prems(2) c'(1) a by auto
    from sibling_subtrees_disjoint [OF d ac edge edge' this]
      y c'(2) show False by (simp only: in_subtree_iff)
  qed
  have cnd: "c \<notin> descendants folders c" by (rule not_own_descendant [OF ac])
  have h2c: "h2 c = Some ?fp"
    using b1 cnd by (simp add: built_def)
  have keep: "h' y = h2 y" if "y \<in> ?S" for y
    using b2 disj [OF that] by (simp add: built_def)
  have dom: "dom h' = dom h \<union> (?S \<union> ?R)"
    using b1 b2 by (auto simp: built_def)
  have out: "h' y = h y" if "y \<notin> ?S \<union> ?R" for y
  proof -
    have "h' y = h2 y" using b2 that by (simp add: built_def)
    also have "h2 y = (h(c \<mapsto> ?fp)) y" using b1 that by (simp add: built_def)
    also have "\<dots> = h y" using that by simp
    finally show ?thesis .
  qed
  have entries: "h' f = Some (os_path_join (if p = x then path else the (h' p)) (sanitize_filename t))"
    if row: "(f, t, p) \<in> set folders" and f: "f \<in> ?S \<union> ?R" for f t p
  proof (cases "f \<in> ?R")
    case True
    with b2 row show ?thesis by (simp add: built_def)
  next
    case False
    with f have fS: "f \<in> ?S" by simp
    show ?thesis
    proof (cases "f = c")
      case True
      then have "t = tc \<and> p = x" using unique_row [OF d row] rowc by simp
      then show ?thesis using keep [OF fS] h2c True by simp
    next
      case False
      with fS have fd: "f \<in> descendants folders c" by simp
      have pS: "p \<in> ?S" by (rule parent_in_subtree [OF d fd row])
      have px: "p \<noteq> x" using parent_not_in_subtree [OF ac edge] pS by auto
      have "h2 f = Some (os_path_join (if p = c then ?fp else the (h2 p)) (sanitize_filename t))"
        using b1 row fd by (simp add: built_def)
      moreover have "(if p = c then ?fp else the (h2 p)) = the (h' p)"
        using keep [OF pS] h2c by auto
      ultimately show ?thesis using keep [OF fS] px by simp
    qed
  qed
  show ?case
    unfolding built_def split using dom out entries by blast
qed

lemma build_hierarchy_built:
  assumes d: "distinct (map fst folders)" and ac: "acyclic (child_edges folders)"
  shows "build_hierarchy k folders x path h = Some h' \<Longrightarrow>
         built folders x path (descendants folders x) h h'"
proof (induction k arbitrary: x path h h')
  case 0
  then show ?case by simp
next
  case (Suc k)
  let ?cs = "select_subfolders folders x"
  from Suc.prems have run: "for_subfolders (build_hierarchy k folders) path ?cs h = Some h'"
    by simp
  have rows: "\<forall>c \<in> set ?cs. (fst c, snd c, x) \<in> set folders"
    by (auto simp: select_subfolders_iff)
  have "built folders x path (subtrees folders ?cs) h h'"
    by (rule for_subfolders_built [OF d ac Suc.IH rows distinct_select_subfolders [OF d] run])
  then show ?case by (simp add: descendants_subtrees)
qed

section \<open>Termination on an acyclic table\<close>

lemma for_subfolders_returns:
  assumes "\<forall>c \<in> set cs. \<forall>p h. recurse (fst c) p h \<noteq> None"
  shows "for_subfolders recurse path cs h \<noteq> None"
  using assms
proof (induction cs arbitrary: h)
  case Nil
  then show ?case by simp
next
  case (Cons a cs)
  obtain c tc where a: "a = (c, tc)" by (cases a)
  from Cons.prems obtain h1 where
    "recurse c (os_path_join path (sanitize_filename tc))
       (h(c \<mapsto> os_path_join path (sanitize_filename tc))) = Some h1"
    unfolding a by fastforce
  moreover have "for_subfolders recurse path cs h1 \<noteq> None"
    using Cons.IH Cons.prems by simp
  ultimately show ?case unfolding a for_subfolders_Cons by simp
qed

lemma common_fuel:
  assumes "\<forall>c \<in> set cs. \<exists>n. \<forall>p h. build_hierarchy n folders c p h \<noteq> None"
  shows "\<exists>n. \<forall>c \<in> set cs. \<forall>p h. build_hierarchy n folders c p h \<noteq> None"
  using assms
proof (induction cs)
  case Nil
  then show ?case by simp
next
  case (Cons a cs)
  then obtain n1 n2 where
    n1: "\<forall>p h. build_hierarchy n1 folders a p h \<noteq> None" and
    n2: "\<forall>c \<in> set cs. \<forall>p h. build_hierarchy n2 folders c p h \<noteq> None"
    by auto
  have up: "build_hierarchy (max n1 n2) folders c p h \<noteq> None"
    if "build_hierarchy n folders c p h \<noteq> None" "n \<le> max n1 n2" for n c p h
    using that build_hierarchy_mono [of n "max n1 n2" folders c p h] by auto
  have "\<forall>c \<in> set (a # cs). \<forall>p h. build_hierarchy (max n1 n2) folders c p h \<noteq> None"
    using n1 n2 up by (metis max.cobounded1 max.cobounded2 set_ConsD)
  then show ?case by blast
qed

lemma build_hierarchy_returns:
  assumes ac: "acyclic (child_edges folders)"
  shows "\<exists>n. \<forall>path h. build_hierarchy n folders x path h \<noteq> None"
proof -
  have wf: "wf ((child_edges folders)\<inverse>)"
    by (rule finite_acyclic_wf_converse [OF finite_child_edges ac])
  show ?thesis
  proof (induction x rule: wf_induct_rule [OF wf])
    case (1 x)
    let ?cs = "map fst (select_subfolders folders x)"
    have "\<forall>c \<in> set ?cs. \<exists>n. \<forall>p h. build_hierarchy n folders c p h \<noteq> None"
    proof
      fix c assume "c \<in> set ?cs"
      then obtain t where "(c, t) \<in> set (select_subfolders folders x)" by auto
      then have "(x, c) \<in> child_edges folders"
        by (auto simp: select_subfolders_iff child_edges_iff)
      then show "\<exists>n. \<forall>p h. build_hierarchy n folders c p h \<noteq> None"
        using 1 by simp
    qed
    from common_fuel [OF this] obtain n where
      n: "\<forall>c \<in> set ?cs. \<forall>p h. build_hierarchy n folders c p h \<noteq> None" by blast
    have "build_hierarchy (Suc n) folders x path h \<noteq> None" for path h
      using for_subfolders_returns [of "select_subfolders folders x" "build_hierarchy n folders"] n
      by simp
    then show ?case by blast
  qed
qed

text \<open>
  Claim C7. The folder table has one row per identifier and no folder is its own
  ancestor, and exactly one parentless folder has the target title. Then the resolver
  returns (for every recursion budget from some bound on, with the same result) a mapping
  whose keys are exactly the folders reachable from the root, the root among them; the
  root's entry is the empty path, and the entry of every folder below the root is the
  entry of its parent joined with its sanitized title.
\<close>

theorem get_folder_hierarchy_tree:
  assumes d: "distinct (map fst folders)"
    and ac: "acyclic (child_edges folders)"
    and root: "select_root_ids folders target = [root]"
  shows "\<exists>n h. (\<forall>k\<ge>n. get_folder_hierarchy k folders target = Some (Inr (h, root))) \<and>
           dom h = {f. (root, f) \<in> (child_edges folders)\<^sup>*} \<and>
           h root = Some [] \<and>
           (\<forall>f t p. (f, t, p) \<in> set folders \<and> (root, f) \<in> (child_edges folders)\<^sup>+ \<longrightarrow>
              (\<exists>pp. h p = Some pp \<and> h f = Some (os_path_join pp (sanitize_filename t))))"
proof -
  let ?h0 = "[root \<mapsto> []] :: string \<rightharpoonup> string"
  let ?D = "descendants folders root"
  from build_hierarchy_returns [OF ac, of root] obtain n h where
    n: "build_hierarchy n folders root [] ?h0 = Some h" by fastforce
  have b: "built folders root [] ?D ?h0 h"
    by (rule build_hierarchy_built [OF d ac n])
  have all: "get_folder_hierarchy k folders target = Some (Inr (h, root))" if "n \<le> k" for k
    using build_hierarchy_mono [OF that n] by (simp add: get_folder_hierarchy_def root)
  have dom: "dom h = {f. (root, f) \<in> (child_edges folders)\<^sup>*}"
  proof -
    have "dom h = insert root ?D" using b by (simp add: built_def)
    then show ?thesis using in_subtree_iff [of _ root folders] by blast
  qed
  have hroot: "h root = Some []"
    using b not_own_descendant [OF ac, of root] by (simp add: built_def)
  have entries: "\<exists>pp. h p = Some pp \<and> h f = Some (os_path_join pp (sanitize_filename t))"
    if row: "(f, t, p) \<in> set folders" and f: "(root, f) \<in> (child_edges folders)\<^sup>+" for f t p
  proof -
    have fd: "f \<in> ?D" using f by (simp add: descendants_def)
    have "p \<in> insert root ?D" by (rule parent_in_subtree [OF d fd row])
    then have "p \<in> dom h" using b by (simp add: built_def)
    then obtain pp where pp: "h p = Some pp" by auto
    have "h f = Some (os_path_join (if p = root then [] else the (h p)) (sanitize_filename t))"
      using b row fd by (simp add: built_def)
    moreover have "(if p = root then [] else the (h p)) = pp"
      using pp hroot by auto
    ultimately show ?thesis using pp by simp
  qed
  from all dom hroot entries show ?thesis by blast
qed

lemma example_folders_acyclic: "acyclic (child_edges example_folders)"
  by (rule acyclicI_order [where f = "\<lambda>s. 10 - length s"])
     (auto simp: child_edges_def example_folders_def)

theorem get_folder_hierarchy_tree_witness:
  "\<exists>n h. (\<forall>k\<ge>n. get_folder_hierarchy k example_folders ''joplin'' = Some (Inr (h, ''r''))) \<and>
          h ''r'' = Some [] \<and> h ''a1'' = Some ''Work_ 2024'' \<and>
          h ''b22'' = Some ''Work_ 2024/a_b''"
proof -
  have d: "distinct (map fst example_folders)"
    by (simp add: example_folders_def)
  have root: "select_root_ids example_folders ''joplin'' = [''r'']"
    by (simp add: select_root_ids_def example_folders_def)
  from get_folder_hierarchy_tree [OF d example_folders_acyclic root] obtain n h where
    all: "\<forall>k\<ge>n. get_folder_hierarchy k example_folders ''joplin'' = Some (Inr (h, ''r''))" and
    hroot: "h ''r'' = Some []" and
    entries: "\<And>f t p. (f, t, p) \<in> set example_folders \<Longrightarrow>
       (''r'', f) \<in> (child_edges example_folders)\<^sup>+ \<Longrightarrow>
       \<exists>pp. h p = Some pp \<and> h f = Some (os_path_join pp (sanitize_filename t))"
    by blast
  have e1: "(''r'', ''a1'') \<in> child_edges example_folders"
    and e2: "(''a1'', ''b22'') \<in> child_edges example_folders"
    by (simp_all add: child_edges_def example_folders_def)
  have r1: "(''r'', ''a1'') \<in> (child_edges example_folders)\<^sup>+" using e1 by blast
  have r2: "(''r'', ''b22'') \<in> (child_edges example_folders)\<^sup>+" using e1 e2 by (meson trancl.simps)
  have s1: "sanitize_filename ''Work: 2024'' = ''Work_ 2024''"
    "sanitize_filename ''a/b'' = ''a_b''"
    by (simp_all add: illegal_char_def illegal_chars_def)
  have a1: "h ''a1'' = Some ''Work_ 2024''"
    using entries [of "''a1''" "''Work: 2024''" "''r''", OF _ r1] hroot
    by (simp add: example_folders_def s1 os_path_join_def del: sanitize_filename.simps)
  have b22: "h ''b22'' = Some ''Work_ 2024/a_b''"
    using entries [of "''b22''" "''a/b''" "''a1''", OF _ r2] a1
    by (simp add: example_folders_def s1 os_path_join_def del: sanitize_filename.simps)
  from all hroot a1 b22 show ?thesis by blast
qed

lemma get_folder_hierarchy_not_found:
  "select_root_ids folders target = [] \<Longrightarrow>
   get_folder_hierarchy fuel folders target = Some (Inl (ValueError target))"
  by (simp add: get_folder_hierarchy_def)

section \<open>The model on concrete inputs\<close>

text \<open>
  A body with an image that is in the index and a reference that is not, written into
  an assets directory that does not exist yet; the example table; and a table with a
  cycle through the root, for which no budget is enough.
\<close>

lemma process_resources_example:
  "(case process_resources example_env
           (''see '' @ ref_text rid_a @ ''&nbsp;and '' @ ref_text rid_d)
           example_lookup ''Trip'' ''/v/new''
           (example_world\<lparr>trace := []\<rparr>) of
      (r, w) \<Rightarrow> (r, trace w, files w ''/v/new/Trip-001.png'', ''/v/new'' \<in> dirs w)) =
   (Inr (''see ![](Trip-001.png) and '' @ ref_text rid_d),
    [ResourceNotFound rid_d, MakeDirs ''/v/new'',
     CopyFile (''/res/'' @ rid_a @ ''.png'') ''/v/new/Trip-001.png''],
    Some ''new image'', True)"
  by code_simp

lemma get_folder_hierarchy_example:
  "map_option (map_sum id (\<lambda>(h, r). (map h [''r'', ''a1'', ''b22'', ''c1'', ''x'', ''y1''], r)))
     (get_folder_hierarchy 3 example_folders ''joplin'') =
   Some (Inr ([Some [], Some ''Work_ 2024'', Some ''Work_ 2024/a_b'', Some ''Home'', None, None],
              ''r''))"
  by code_simp

lemma get_folder_hierarchy_cycle_example:
  "get_folder_hierarchy 0 [(''r'', ''joplin'', []), ([], ''t'', ''r'')] ''joplin'' = None \<and>
   get_folder_hierarchy 5 [(''r'', ''joplin'', []), ([], ''t'', ''r'')] ''joplin'' = None"
  by code_simp

end
